theory Spec2Isabelle
  imports Complex_Main "HOL-Library.Word"
begin

section \<open>The image transformations of dataset.py\<close>

text \<open>
  The four transformations of \<^verbatim>\<open>dataset.py\<close> (random rotation, random cutout, random
  crop, contrast and horizontal flip) and the loop of \<^verbatim>\<open>main\<close> that builds the
  augmented training set.

  Conventions of the embedding.
  \<^item> A NumPy array of rank three is a nested list, indexed channel, row, column. The
    CIFAR images are \<^verbatim>\<open>uint8\<close> arrays (\<open>8 word\<close>); \<^verbatim>\<open>np.zeros\<close> makes \<^verbatim>\<open>float64\<close>
    arrays, whose elements are modelled as \<open>real\<close>: the arithmetic of the source on them
    is done exactly here, without the rounding of binary floating point.
  \<^item> Every call of \<^verbatim>\<open>random\<close> or \<^verbatim>\<open>np.random\<close> is a parameter of the function that
    makes it, named as the variable the source assigns the draw to.
  \<^item> An exception is a value \<open>Inl e\<close>; a loop stops at the first one.
\<close>

subsection \<open>Errors, indexing, loops\<close>

text \<open>
  \<open>IndexError\<close> and \<open>ValueError\<close> are the exceptions NumPy raises in these functions.
  \<open>ShapeMismatch\<close> and \<open>InvalidRandomDraw\<close> are the two errors the specification names;
  no line of the source raises them.
\<close>

datatype error = IndexError | ValueError | ShapeMismatch | InvalidRandomDraw

type_synonym 'a array2 = "'a list list"
type_synonym 'a array3 = "'a list list list"
type_synonym uint8 = "8 word"

definition CHANNELS :: int where
  "CHANNELS = 3"

definition HEIGHT :: int where
  "HEIGHT = 32"

text \<open>\<^verbatim>\<open>a[i]\<close>: a negative index counts from the end, an index out of range raises.\<close>

definition getitem :: "'a list \<Rightarrow> int \<Rightarrow> error + 'a" where
  "getitem xs i =
     (let n = int (length xs); k = (if i < 0 then i + n else i)
      in if 0 \<le> k \<and> k < n then Inr (xs ! nat k) else Inl IndexError)"

text \<open>\<^verbatim>\<open>a[i] = v\<close> on one axis.\<close>

definition setitem :: "'a list \<Rightarrow> int \<Rightarrow> 'a \<Rightarrow> error + 'a list" where
  "setitem xs i v =
     (let n = int (length xs); k = (if i < 0 then i + n else i)
      in if 0 \<le> k \<and> k < n then Inr (xs[nat k := v]) else Inl IndexError)"

text \<open>\<^verbatim>\<open>a[c][i][j]\<close>, read.\<close>

definition get3 :: "'a array3 \<Rightarrow> int \<Rightarrow> int \<Rightarrow> int \<Rightarrow> error + 'a" where
  "get3 a c i j =
     (case getitem a c of Inl e \<Rightarrow> Inl e
      | Inr plane \<Rightarrow>
          (case getitem plane i of Inl e \<Rightarrow> Inl e
           | Inr row \<Rightarrow> getitem row j))"

text \<open>\<^verbatim>\<open>a[c][i][j] = v\<close>: the two outer subscripts are views, the last one stores.\<close>

definition set3 :: "'a array3 \<Rightarrow> int \<Rightarrow> int \<Rightarrow> int \<Rightarrow> 'a \<Rightarrow> error + 'a array3" where
  "set3 a c i j v =
     (case getitem a c of Inl e \<Rightarrow> Inl e
      | Inr plane \<Rightarrow>
          (case getitem plane i of Inl e \<Rightarrow> Inl e
           | Inr row \<Rightarrow>
               (case setitem row j v of Inl e \<Rightarrow> Inl e
                | Inr row' \<Rightarrow>
                    (case setitem plane i row' of Inl e \<Rightarrow> Inl e
                     | Inr plane' \<Rightarrow> setitem a c plane'))))"

text \<open>\<^verbatim>\<open>range(a, b)\<close>.\<close>

definition py_range :: "int \<Rightarrow> int \<Rightarrow> int list" where
  "py_range a b = [a..b - 1]"

text \<open>\<^verbatim>\<open>for x in xs: body\<close> over a state \<open>s\<close>, stopping at the first exception.\<close>

fun for_each :: "'i list \<Rightarrow> ('i \<Rightarrow> 's \<Rightarrow> error + 's) \<Rightarrow> 's \<Rightarrow> error + 's" where
  "for_each [] body s = Inr s"
| "for_each (x # xs) body s =
     (case body x s of Inl e \<Rightarrow> Inl e | Inr s' \<Rightarrow> for_each xs body s')"

text \<open>\<^verbatim>\<open>np.zeros((c, h, w))\<close>.\<close>

definition zeros3 :: "int \<Rightarrow> int \<Rightarrow> int \<Rightarrow> real array3" where
  "zeros3 c h w = replicate (nat c) (replicate (nat h) (replicate (nat w) 0))"

text \<open>The value a \<^verbatim>\<open>uint8\<close> has once stored in a \<^verbatim>\<open>float64\<close> array.\<close>

definition float_of_uint8 :: "uint8 \<Rightarrow> real" where
  "float_of_uint8 v = of_nat (unat v)"

definition to_float :: "uint8 array3 \<Rightarrow> real array3" where
  "to_float a = map (map (map float_of_uint8)) a"

text \<open>The shape of a nested list: \<open>shape3 c h w a\<close> says that \<open>a\<close> is \<open>c \<times> h \<times> w\<close>.\<close>

definition shape2 :: "nat \<Rightarrow> nat \<Rightarrow> 'a array2 \<Rightarrow> bool" where
  "shape2 h w p \<longleftrightarrow> length p = h \<and> (\<forall>r \<in> set p. length r = w)"

definition shape3 :: "nat \<Rightarrow> nat \<Rightarrow> nat \<Rightarrow> 'a array3 \<Rightarrow> bool" where
  "shape3 c h w a \<longleftrightarrow> length a = c \<and> (\<forall>p \<in> set a. shape2 h w p)"

text \<open>The element at channel \<open>c\<close>, row \<open>i\<close>, column \<open>j\<close> of an array known to have it.\<close>

definition px :: "'a array3 \<Rightarrow> nat \<Rightarrow> nat \<Rightarrow> nat \<Rightarrow> 'a" where
  "px a c i j = a ! c ! i ! j"

subsection \<open>Random rotation\<close>

definition radians :: "real \<Rightarrow> real" where
  "radians d = d * pi / 180"

text \<open>\<^verbatim>\<open>np.rint\<close>: the nearest integer, a tie going to the even one.\<close>

definition rint :: "real \<Rightarrow> int" where
  "rint x =
     (let f = \<lfloor>x\<rfloor>
      in if x - of_int f < 1 / 2 then f
         else if 1 / 2 < x - of_int f then f + 1
         else if even f then f else f + 1)"

text \<open>
  \<^verbatim>\<open>.astype("uint8")\<close> of an integral \<^verbatim>\<open>float64\<close>: the integer modulo 256, which is
  what the conversion gives on the x86-64 builds of NumPy for the magnitudes met here
  (C leaves the conversion of a value outside 0..255 undefined).
\<close>

definition astype_uint8 :: "int \<Rightarrow> uint8" where
  "astype_uint8 n = word_of_int n"

text \<open>The two coordinates before rounding (lines 73 and 74), \<open>theta\<close> in radians.\<close>

definition dst_row :: "real \<Rightarrow> int \<Rightarrow> int \<Rightarrow> real" where
  "dst_row theta i j =
     (of_int i - 15.5) * cos theta + (of_int j - 15.5) * sin theta + 15.5"

definition dst_col :: "real \<Rightarrow> int \<Rightarrow> int \<Rightarrow> real" where
  "dst_col theta i j =
     (of_int j - 15.5) * cos theta - (of_int i - 15.5) * sin theta + 15.5"

text \<open>The body of the loop over \<open>channel\<close> (lines 76 and 77).\<close>

definition rotation_write ::
  "uint8 array3 \<Rightarrow> int \<Rightarrow> int \<Rightarrow> uint8 \<Rightarrow> uint8 \<Rightarrow> int \<Rightarrow> real array3 \<Rightarrow> error + real array3" where
  "rotation_write input_image i j ni nj channel output_image =
     (case get3 input_image channel i j of Inl e \<Rightarrow> Inl e
      | Inr v \<Rightarrow> set3 output_image channel (uint ni) (uint nj) (float_of_uint8 v))"

text \<open>The body of the loop over \<open>j\<close> (lines 72 to 77).\<close>

definition rotation_pixel ::
  "real \<Rightarrow> uint8 array3 \<Rightarrow> int \<Rightarrow> int \<Rightarrow> real array3 \<Rightarrow> error + real array3" where
  "rotation_pixel theta input_image i j output_image =
     (let ni = astype_uint8 (rint (dst_row theta i j));
          nj = astype_uint8 (rint (dst_col theta i j))
      in if ni \<ge> 0 \<and> ni < 32 \<and> nj \<ge> 0 \<and> nj < 32
         then for_each (py_range 0 CHANNELS) (rotation_write input_image i j ni nj) output_image
         else Inr output_image)"

text \<open>\<open>random_rotation\<close>; \<open>theta\<close> is the draw \<^verbatim>\<open>random.randint(-180, 180)\<close>.\<close>

definition random_rotation :: "int \<Rightarrow> uint8 array3 \<Rightarrow> error + real array3" where
  "random_rotation theta input_image =
     (let theta' = radians (of_int (- theta));
          output_image = zeros3 CHANNELS HEIGHT HEIGHT
      in for_each (py_range 0 HEIGHT)
           (\<lambda>i. for_each (py_range 0 HEIGHT) (\<lambda>j. rotation_pixel theta' input_image i j))
           output_image)"

subsection \<open>Random cutout\<close>

text \<open>The body of the innermost loop (line 111); \<open>value\<close> is an \<^verbatim>\<open>int64\<close> array.\<close>

definition cutout_write ::
  "int list \<Rightarrow> int \<Rightarrow> int \<Rightarrow> int \<Rightarrow> uint8 array3 \<Rightarrow> error + uint8 array3" where
  "cutout_write value channel i j output_image =
     (case getitem value channel of Inl e \<Rightarrow> Inl e
      | Inr v \<Rightarrow> set3 output_image channel i j (astype_uint8 v))"

text \<open>
  \<open>random_cutout\<close>; \<open>width\<close>, \<open>height\<close>, \<open>value\<close>, \<open>tlx\<close>, \<open>tly\<close>, \<open>brx\<close>, \<open>bry\<close> are
  the draws of lines 93 to 103, in the order of the source.
\<close>

definition random_cutout ::
  "int \<Rightarrow> int \<Rightarrow> int list \<Rightarrow> int \<Rightarrow> int \<Rightarrow> int \<Rightarrow> int \<Rightarrow> uint8 array3 \<Rightarrow> error + uint8 array3" where
  "random_cutout width height value tlx tly brx bry input_image =
     (let output_image = input_image
      in for_each (py_range 0 CHANNELS)
           (\<lambda>channel. for_each (py_range tlx (brx + 1))
              (\<lambda>i. for_each (py_range tly (bry + 1))
                 (\<lambda>j. cutout_write value channel i j)))
           output_image)"

text \<open>What \<^verbatim>\<open>random.randint\<close> and \<^verbatim>\<open>np.random.randint(0, 256, 3)\<close> guarantee of the draws.\<close>

definition cutout_contract ::
  "int \<Rightarrow> int \<Rightarrow> int list \<Rightarrow> int \<Rightarrow> int \<Rightarrow> int \<Rightarrow> int \<Rightarrow> bool" where
  "cutout_contract width height value tlx tly brx bry \<longleftrightarrow>
     0 \<le> width \<and> width \<le> 16 \<and> 0 \<le> height \<and> height \<le> 16 \<and>
     length value = 3 \<and> (\<forall>v \<in> set value. 0 \<le> v \<and> v < 256) \<and>
     0 \<le> tlx \<and> tlx \<le> 31 - width \<and> 0 \<le> tly \<and> tly \<le> 31 - height \<and>
     tlx \<le> brx \<and> brx \<le> 31 \<and> tly \<le> bry \<and> bry \<le> 31"

subsection \<open>Random crop\<close>

text \<open>
  \<^verbatim>\<open>np.pad(a, pad_width=2, mode="constant", constant_values=0)\<close> of a plane: two zeros
  before and after on both axes. The width of a plane is that of its rows.
\<close>

definition np_pad :: "uint8 array2 \<Rightarrow> uint8 array2" where
  "np_pad a =
     (let w = (case a of [] \<Rightarrow> 0 | r # _ \<Rightarrow> length r);
          z = replicate (w + 4) 0
      in [z, z] @ map (\<lambda>r. [0, 0] @ r @ [0, 0]) a @ [z, z])"

text \<open>\<^verbatim>\<open>xs[lo:hi]\<close>: the bounds count from the end when negative and are clamped to the list.\<close>

definition py_slice :: "'a list \<Rightarrow> int \<Rightarrow> int \<Rightarrow> 'a list" where
  "py_slice xs lo hi =
     (let n = int (length xs);
          lo' = (if lo < 0 then max (lo + n) 0 else min lo n);
          hi' = (if hi < 0 then max (hi + n) 0 else min hi n)
      in take (nat (hi' - lo')) (drop (nat lo') xs))"

text \<open>\<^verbatim>\<open>a[r0:r1, c0:c1]\<close> of a plane.\<close>

definition slice2 :: "'a array2 \<Rightarrow> int \<Rightarrow> int \<Rightarrow> int \<Rightarrow> int \<Rightarrow> 'a array2" where
  "slice2 a r0 r1 c0 c1 = map (\<lambda>r. py_slice r c0 c1) (py_slice a r0 r1)"

text \<open>
  \<^verbatim>\<open>a[channel] = plane\<close>: the plane is broadcast to the shape of \<^verbatim>\<open>a[channel]\<close> and
  stored in its place; a plane that does not broadcast raises.
\<close>

definition assign_plane :: "real array3 \<Rightarrow> int \<Rightarrow> real array2 \<Rightarrow> error + real array3" where
  "assign_plane a channel plane =
     (case getitem a channel of Inl e \<Rightarrow> Inl e
      | Inr old \<Rightarrow>
          (let w = (case old of [] \<Rightarrow> 0 | r # _ \<Rightarrow> length r);
               pw = (case plane of [] \<Rightarrow> 0 | r # _ \<Rightarrow> length r)
           in if (pw = w \<or> pw = 1) \<and> (length plane = length old \<or> length plane = 1)
              then setitem a channel
                     (let rows = map (\<lambda>r. if pw = w then r else replicate w (hd r)) plane
                      in if length plane = length old then rows
                         else replicate (length old) (hd rows))
              else Inl ValueError))"

text \<open>The body of the first loop (lines 138 to 140).\<close>

definition crop_pad :: "uint8 array3 \<Rightarrow> int \<Rightarrow> real array3 \<Rightarrow> error + real array3" where
  "crop_pad input_image channel padded_image =
     (case getitem input_image channel of Inl e \<Rightarrow> Inl e
      | Inr plane \<Rightarrow>
          assign_plane padded_image channel (map (map float_of_uint8) (np_pad plane)))"

text \<open>The body of the second loop (line 143).\<close>

definition crop_window ::
  "real array3 \<Rightarrow> int \<Rightarrow> int \<Rightarrow> int \<Rightarrow> int \<Rightarrow> int \<Rightarrow> real array3 \<Rightarrow> error + real array3" where
  "crop_window padded_image tlx brx tly bry channel output_image =
     (case getitem padded_image channel of Inl e \<Rightarrow> Inl e
      | Inr plane \<Rightarrow> assign_plane output_image channel (slice2 plane tlx brx tly bry))"

text \<open>\<open>random_crop\<close>; \<open>tlx\<close> and \<open>tly\<close> are the two draws \<^verbatim>\<open>random.randint(0, 4)\<close>.\<close>

definition random_crop :: "int \<Rightarrow> int \<Rightarrow> uint8 array3 \<Rightarrow> error + real array3" where
  "random_crop tlx tly input_image =
     (let brx = tlx + HEIGHT;
          bry = tly + HEIGHT;
          padded_image = zeros3 CHANNELS (HEIGHT + 4) (HEIGHT + 4);
          output_image = zeros3 CHANNELS HEIGHT HEIGHT
      in case for_each (py_range 0 CHANNELS) (crop_pad input_image) padded_image of
           Inl e \<Rightarrow> Inl e
         | Inr padded_image' \<Rightarrow>
             for_each (py_range 0 CHANNELS) (crop_window padded_image' tlx brx tly bry)
               output_image)"

subsection \<open>Contrast and horizontal flip\<close>

text \<open>
  The body of the contrast loop (lines 167 to 169). The pixel is a \<^verbatim>\<open>uint8\<close> scalar and
  128 a Python integer: under the promotion rules of NumPy 1.x, which the repository was
  written for, their difference is a signed \<^verbatim>\<open>int64\<close> and does not wrap.
\<close>

definition contrast_write ::
  "real \<Rightarrow> uint8 array3 \<Rightarrow> int \<Rightarrow> int \<Rightarrow> int \<Rightarrow> real array3 \<Rightarrow> error + real array3" where
  "contrast_write alpha input_image channel i j output_image =
     (case get3 input_image channel i j of Inl e \<Rightarrow> Inl e
      | Inr v \<Rightarrow> set3 output_image channel i j (alpha * of_int (uint v - 128) + 128))"

text \<open>\<^verbatim>\<open>np.clip(a, lo, hi)\<close>.\<close>

definition np_clip :: "real array3 \<Rightarrow> real \<Rightarrow> real \<Rightarrow> real array3" where
  "np_clip a lo hi = map (map (map (\<lambda>x. min (max x lo) hi))) a"

text \<open>The contrast loop (lines 164 to 169).\<close>

definition contrast_loop :: "real \<Rightarrow> uint8 array3 \<Rightarrow> real array3 \<Rightarrow> error + real array3" where
  "contrast_loop alpha input_image output_image =
     for_each (py_range 0 CHANNELS)
       (\<lambda>channel. for_each (py_range 0 32)
          (\<lambda>i. for_each (py_range 0 32)
             (\<lambda>j. contrast_write alpha input_image channel i j)))
       output_image"

text \<open>Lines 161 to 171: the contrast loop over a fresh array, then the clip.\<close>

definition contrast_stage :: "real \<Rightarrow> uint8 array3 \<Rightarrow> error + real array3" where
  "contrast_stage alpha input_image =
     (let output_image = zeros3 CHANNELS HEIGHT HEIGHT
      in case contrast_loop alpha input_image output_image of
           Inl e \<Rightarrow> Inl e
         | Inr output_image' \<Rightarrow> Inr (np_clip output_image' 0 255))"

text \<open>
  The body of the flip loop (lines 180 to 186): the right-hand tuple is read first, both
  elements from \<open>input_image\<close>, then the two targets are stored from left to right.
\<close>

definition flip_swap ::
  "uint8 array3 \<Rightarrow> int \<Rightarrow> int \<Rightarrow> int \<Rightarrow> real array3 \<Rightarrow> error + real array3" where
  "flip_swap input_image channel i j output_image =
     (case get3 input_image channel i (HEIGHT - 1 - j) of Inl e \<Rightarrow> Inl e
      | Inr a \<Rightarrow>
          (case get3 input_image channel i j of Inl e \<Rightarrow> Inl e
           | Inr b \<Rightarrow>
               (case set3 output_image channel i j (float_of_uint8 a) of Inl e \<Rightarrow> Inl e
                | Inr output_image' \<Rightarrow>
                    set3 output_image' channel i (HEIGHT - 1 - j) (float_of_uint8 b))))"

text \<open>Lines 177 to 186.\<close>

definition flip_stage :: "uint8 array3 \<Rightarrow> real array3 \<Rightarrow> error + real array3" where
  "flip_stage input_image output_image =
     for_each (py_range 0 CHANNELS)
       (\<lambda>channel. for_each (py_range 0 HEIGHT)
          (\<lambda>i. for_each (py_range 0 (HEIGHT div 2))
             (\<lambda>j. flip_swap input_image channel i j)))
       output_image"

text \<open>
  \<open>contrast_and_horizontal_flipping\<close>; \<open>alpha\<close> is the draw \<^verbatim>\<open>random.uniform(0.5, 2.0)\<close>
  and \<open>probability\<close> the draw \<^verbatim>\<open>random.random()\<close>.
\<close>

definition contrast_and_horizontal_flipping ::
  "real \<Rightarrow> real \<Rightarrow> uint8 array3 \<Rightarrow> error + real array3" where
  "contrast_and_horizontal_flipping alpha probability input_image =
     (case contrast_stage alpha input_image of Inl e \<Rightarrow> Inl e
      | Inr output_image \<Rightarrow>
          if probability > 0.5 then flip_stage input_image output_image
          else Inr output_image)"

subsection \<open>The augmentation loop of main\<close>

text \<open>
  The transformations return arrays of two element types: \<open>random_cutout\<close> a copy of
  its \<^verbatim>\<open>uint8\<close> input, the other three a \<^verbatim>\<open>float64\<close> array.
\<close>

datatype image = UInt8Image "uint8 array3" | Float64Image "real array3"

text \<open>All the draws one call of a transformation can make, for one image.\<close>

record draws =
  d_theta :: int
  d_width :: int
  d_height :: int
  d_value :: "int list"
  d_tlx :: int
  d_tly :: int
  d_brx :: int
  d_bry :: int
  d_crop_tlx :: int
  d_crop_tly :: int
  d_alpha :: real
  d_probability :: real

text \<open>The ranges the random generators draw from (lines 64, 93 to 103, 127, 128, 159, 173).\<close>

definition draws_contract :: "draws \<Rightarrow> bool" where
  "draws_contract d \<longleftrightarrow>
     - 180 \<le> d_theta d \<and> d_theta d \<le> 180 \<and>
     cutout_contract (d_width d) (d_height d) (d_value d) (d_tlx d) (d_tly d) (d_brx d) (d_bry d) \<and>
     0 \<le> d_crop_tlx d \<and> d_crop_tlx d \<le> 4 \<and> 0 \<le> d_crop_tly d \<and> d_crop_tly d \<le> 4 \<and>
     0.5 \<le> d_alpha d \<and> d_alpha d \<le> 2.0 \<and>
     0 \<le> d_probability d \<and> d_probability d < 1"

text \<open>The \<^verbatim>\<open>if\<close> chain of lines 311 to 318.\<close>

definition augment_image :: "int \<Rightarrow> draws \<Rightarrow> uint8 array3 \<Rightarrow> error + image" where
  "augment_image operation d og_image =
     (if operation = 0 then
        map_sum id Float64Image (random_rotation (d_theta d) og_image)
      else if operation = 1 then
        map_sum id UInt8Image
          (random_cutout (d_width d) (d_height d) (d_value d) (d_tlx d) (d_tly d) (d_brx d)
             (d_bry d) og_image)
      else if operation = 2 then
        map_sum id Float64Image (random_crop (d_crop_tlx d) (d_crop_tly d) og_image)
      else
        map_sum id Float64Image
          (contrast_and_horizontal_flipping (d_alpha d) (d_probability d) og_image))"

text \<open>
  The body of the loop of lines 306 to 320; \<open>rng i\<close> holds the draws made during
  iteration \<open>i\<close>.
\<close>

definition augment_step ::
  "int list \<Rightarrow> (int \<Rightarrow> draws) \<Rightarrow> uint8 array3 list \<Rightarrow> int \<Rightarrow> image list \<Rightarrow> error + image list" where
  "augment_step operations rng images i augmented_images =
     (case getitem images i of Inl e \<Rightarrow> Inl e
      | Inr og_image \<Rightarrow>
          (case getitem operations i of Inl e \<Rightarrow> Inl e
           | Inr operation \<Rightarrow>
               (case augment_image operation (rng i) og_image of Inl e \<Rightarrow> Inl e
                | Inr augmented_image \<Rightarrow> Inr (augmented_images @ [augmented_image]))))"

text \<open>
  \<^verbatim>\<open>np.array(augmented_images).reshape(n, CHANNELS, HEIGHT, HEIGHT)\<close>: on \<open>n\<close> arrays of
  shape 3 x 32 x 32 the images in their order, the element values unchanged (given here
  as reals). On any other list the source raises or regroups the elements; the model
  answers \<open>ValueError\<close> there, a case the loop of \<^verbatim>\<open>main\<close> does not reach.
\<close>

definition image_shape_ok :: "image \<Rightarrow> bool" where
  "image_shape_ok img =
     (case img of UInt8Image a \<Rightarrow> shape3 3 32 32 a | Float64Image a \<Rightarrow> shape3 3 32 32 a)"

definition image_values :: "image \<Rightarrow> real array3" where
  "image_values img = (case img of UInt8Image a \<Rightarrow> to_float a | Float64Image a \<Rightarrow> a)"

definition stack_images :: "int \<Rightarrow> image list \<Rightarrow> error + real array3 list" where
  "stack_images n augmented_images =
     (if int (length augmented_images) = n \<and> list_all image_shape_ok augmented_images
      then Inr (map image_values augmented_images)
      else Inl ValueError)"

text \<open>
  Lines 303 to 329: \<open>n\<close> is \<^verbatim>\<open>NUM_TRAIN_BATCHES * IMAGES_PER_BATCH\<close>, \<open>operations\<close>
  the draw \<^verbatim>\<open>np.random.randint(0, 4, n)\<close>; the result is the pair of the entries
  \<^verbatim>\<open>"labels"\<close> and \<^verbatim>\<open>"images"\<close> of \<^verbatim>\<open>augmented_dataset\<close>.
\<close>

definition augmented_dataset ::
  "int \<Rightarrow> int list \<Rightarrow> (int \<Rightarrow> draws) \<Rightarrow> int list \<Rightarrow> uint8 array3 list
     \<Rightarrow> error + (int list \<times> real array3 list)" where
  "augmented_dataset n operations rng labels images =
     (case for_each (py_range 0 n) (augment_step operations rng images) [] of
        Inl e \<Rightarrow> Inl e
      | Inr augmented_images \<Rightarrow>
          (case stack_images n augmented_images of Inl e \<Rightarrow> Inl e
           | Inr stacked \<Rightarrow> Inr (labels, stacked)))"

subsection \<open>Auxiliary notions for the proofs\<close>

text \<open>The array \<open>a\<close> with the element at \<open>c\<close>, \<open>i\<close>, \<open>j\<close> replaced.\<close>

definition put3 :: "'a array3 \<Rightarrow> nat \<Rightarrow> nat \<Rightarrow> nat \<Rightarrow> 'a \<Rightarrow> 'a array3" where
  "put3 a c i j v = a[c := (a ! c)[i := (a ! c ! i)[j := v]]]"

text \<open>
  \<open>fills C H W F s0 D s\<close>: the array \<open>s\<close> has shape \<open>C \<times> H \<times> W\<close>, holds \<open>F\<close> at the
  positions of \<open>D\<close> and agrees with \<open>s0\<close> elsewhere.
\<close>

definition fills ::
  "nat \<Rightarrow> nat \<Rightarrow> nat \<Rightarrow> (nat \<Rightarrow> nat \<Rightarrow> nat \<Rightarrow> 'a) \<Rightarrow> 'a array3 \<Rightarrow> (nat \<times> nat \<times> nat) set
     \<Rightarrow> 'a array3 \<Rightarrow> bool" where
  "fills C H W F s0 D s \<longleftrightarrow>
     shape3 C H W s \<and>
     (\<forall>c<C. \<forall>i<H. \<forall>j<W. px s c i j = (if (c, i, j) \<in> D then F c i j else px s0 c i j))"

text \<open>
  \<open>planes H W F D s\<close>: the array \<open>s\<close> has three planes of shape \<open>H \<times> W\<close>, and the
  planes of the channels in \<open>D\<close> are those of \<open>F\<close>.
\<close>

definition planes :: "nat \<Rightarrow> nat \<Rightarrow> (nat \<Rightarrow> 'a array2) \<Rightarrow> nat set \<Rightarrow> 'a array3 \<Rightarrow> bool" where
  "planes H W F D s \<longleftrightarrow>
     length s = 3 \<and> (\<forall>c<3. shape2 H W (s ! c) \<and> (c \<in> D \<longrightarrow> s ! c = F c))"

text \<open>Two images for the examples: every pixel 100, and every pixel its column number.\<close>

definition ramp_image :: "uint8 array3" where
  "ramp_image = replicate 3 (replicate 32 (map of_nat [0..<32]))"

definition grey_image :: "uint8 array3" where
  "grey_image = replicate 3 (replicate 32 (replicate 32 100))"

text \<open>Arrays of shape 3 x 1 x 1 and 4 x 40 x 40, and draws within their ranges.\<close>

definition tiny_image :: "uint8 array3" where
  "tiny_image = [[[1]], [[2]], [[3]]]"

definition wide_image :: "uint8 array3" where
  "wide_image = replicate 4 (replicate 40 (replicate 40 100))"

definition example_draws :: draws where
  "example_draws =
     \<lparr>d_theta = 0, d_width = 5, d_height = 5, d_value = [10, 20, 30],
      d_tlx = 0, d_tly = 0, d_brx = 4, d_bry = 4,
      d_crop_tlx = 2, d_crop_tly = 2, d_alpha = 1, d_probability = 0.9\<rparr>"

section \<open>Properties\<close>

subsection \<open>Indexing and loops\<close>

lemma getitem_in: "0 \<le> i \<Longrightarrow> i < int (length xs) \<Longrightarrow> getitem xs i = Inr (xs ! nat i)"
  by (simp add: getitem_def)

lemma setitem_in: "0 \<le> i \<Longrightarrow> i < int (length xs) \<Longrightarrow> setitem xs i v = Inr (xs[nat i := v])"
  by (simp add: setitem_def)

lemma shape3_nth:
  "shape3 C H W a \<longleftrightarrow>
     length a = C \<and> (\<forall>c<C. length (a ! c) = H \<and> (\<forall>i<H. length (a ! c ! i) = W))"
  by (auto simp: shape3_def shape2_def all_set_conv_all_nth)

lemma get3_in:
  assumes "shape3 C H W a" "0 \<le> c" "c < int C" "0 \<le> i" "i < int H" "0 \<le> j" "j < int W"
  shows "get3 a c i j = Inr (px a (nat c) (nat i) (nat j))"
proof -
  have c: "nat c < C" and i: "nat i < H" and j: "nat j < W" using assms by auto
  from assms(1) c i have l: "length a = C" "length (a ! nat c) = H" "length (a ! nat c ! nat i) = W"
    by (auto simp: shape3_nth)
  show ?thesis using assms(2-) l
    by (simp add: get3_def getitem_in px_def)
qed

lemma set3_in:
  assumes "shape3 C H W a" "0 \<le> c" "c < int C" "0 \<le> i" "i < int H" "0 \<le> j" "j < int W"
  shows "set3 a c i j v = Inr (put3 a (nat c) (nat i) (nat j) v)"
proof -
  have c: "nat c < C" and i: "nat i < H" and j: "nat j < W" using assms by auto
  from assms(1) c i have l: "length a = C" "length (a ! nat c) = H" "length (a ! nat c ! nat i) = W"
    by (auto simp: shape3_nth)
  show ?thesis using assms(2-) l
    by (simp add: set3_def getitem_in setitem_in put3_def)
qed

lemma nth_upd: "k < length xs \<Longrightarrow> xs[i := x] ! k = (if i = k then x else xs ! k)"
  by (cases "i = k") auto

lemma shape3_put3: "shape3 C H W a \<Longrightarrow> shape3 C H W (put3 a c i j v)"
  by (auto simp: shape3_nth put3_def nth_upd)

lemma px_put3:
  assumes "shape3 C H W a" "c < C" "i < H" "j < W" "c' < C" "i' < H" "j' < W"
  shows "px (put3 a c i j v) c' i' j' = (if c' = c \<and> i' = i \<and> j' = j then v else px a c' i' j')"
  using assms by (auto simp: shape3_nth put3_def px_def nth_upd)

text \<open>Invariant rule: the predicate is indexed by the set of items already visited.\<close>

lemma for_each_inv:
  assumes "P W s"
    and "\<And>x W s. x \<in> set xs \<Longrightarrow> P W s \<Longrightarrow> \<exists>s'. body x s = Inr s' \<and> P (W \<union> wp x) s'"
  shows "\<exists>s'. for_each xs body s = Inr s' \<and> P (W \<union> (\<Union>x \<in> set xs. wp x)) s'"
  using assms
proof (induction xs arbitrary: W s)
  case Nil
  then show ?case by simp
next
  case (Cons x xs)
  from Cons.prems obtain s1 where s1: "body x s = Inr s1" "P (W \<union> wp x) s1"
    by (metis list.set_intros(1))
  have "\<exists>s'. for_each xs body s1 = Inr s' \<and> P ((W \<union> wp x) \<union> (\<Union>x \<in> set xs. wp x)) s'"
    by (rule Cons.IH[OF s1(2)]) (use Cons.prems(2) in auto)
  then show ?case using s1(1) by (simp add: Un_assoc)
qed

lemma set_py_range: "set (py_range a b) = {a..<b}"
  by (auto simp: py_range_def)

subsection \<open>Cutout\<close>

lemma fills_init: "shape3 C H W s \<Longrightarrow> fills C H W F s {} s"
  by (simp add: fills_def)

lemma fills_put3:
  assumes "fills C H W F s0 D s" "c < C" "i < H" "j < W"
  shows "fills C H W F s0 (D \<union> {(c, i, j)}) (put3 s c i j (F c i j))"
  using assms by (auto simp: fills_def shape3_put3 px_put3)

lemma cutout_write_fills:
  assumes "fills 3 32 32 (\<lambda>c i j. astype_uint8 (value ! c)) s0 D s"
    and "length value = 3" "0 \<le> channel" "channel < 3" "0 \<le> i" "i < 32" "0 \<le> j" "j < 32"
  shows "\<exists>s'. cutout_write value channel i j s = Inr s' \<and>
           fills 3 32 32 (\<lambda>c i j. astype_uint8 (value ! c)) s0 (D \<union> {(nat channel, nat i, nat j)}) s'"
proof -
  have sh: "shape3 3 32 32 s" using assms(1) by (simp add: fills_def)
  have "cutout_write value channel i j s
          = Inr (put3 s (nat channel) (nat i) (nat j) (astype_uint8 (value ! nat channel)))"
    using assms(2-) by (simp add: cutout_write_def getitem_in set3_in[OF sh])
  moreover have "fills 3 32 32 (\<lambda>c i j. astype_uint8 (value ! c)) s0 (D \<union> {(nat channel, nat i, nat j)})
      (put3 s (nat channel) (nat i) (nat j) (astype_uint8 (value ! nat channel)))"
    by (rule fills_put3[OF assms(1)]) (use assms(3-) in auto)
  ultimately show ?thesis by simp
qed

lemma cutout_loops:
  assumes sh: "shape3 3 32 32 input_image"
    and len: "length value = 3"
    and b: "0 \<le> tlx" "brx \<le> 31" "0 \<le> tly" "bry \<le> 31"
  shows "\<exists>out. random_cutout width height value tlx tly brx bry input_image = Inr out \<and>
           fills 3 32 32 (\<lambda>c i j. astype_uint8 (value ! c)) input_image
             (\<Union>channel \<in> {0..<3}. \<Union>i \<in> {tlx..<brx + 1}. \<Union>j \<in> {tly..<bry + 1}.
                 {(nat channel, nat i, nat j)}) out"
proof -
  let ?F = "\<lambda>c (i::nat) (j::nat). astype_uint8 (value ! c)"
  let ?P = "fills 3 32 32 ?F input_image"
  have inner: "\<exists>s'. for_each (py_range tly (bry + 1)) (\<lambda>j. cutout_write value channel i j) s = Inr s' \<and>
        ?P (D \<union> (\<Union>j \<in> set (py_range tly (bry + 1)). {(nat channel, nat i, nat j)})) s'"
    if "?P D s" "0 \<le> channel" "channel < 3" "0 \<le> i" "i < 32" for D s channel i
    by (rule for_each_inv[where P = ?P, OF that(1)])
       (rule cutout_write_fills, use that len b in \<open>auto simp: set_py_range\<close>)
  have middle: "\<exists>s'. for_each (py_range tlx (brx + 1))
          (\<lambda>i. for_each (py_range tly (bry + 1)) (\<lambda>j. cutout_write value channel i j)) s = Inr s' \<and>
        ?P (D \<union> (\<Union>i \<in> set (py_range tlx (brx + 1)). \<Union>j \<in> set (py_range tly (bry + 1)).
               {(nat channel, nat i, nat j)})) s'"
    if "?P D s" "0 \<le> channel" "channel < 3" for D s channel
    by (rule for_each_inv[where P = ?P, OF that(1)])
       (rule inner, use that b in \<open>auto simp: set_py_range\<close>)
  have outer: "\<exists>s'. for_each (py_range 0 CHANNELS)
          (\<lambda>channel. for_each (py_range tlx (brx + 1))
             (\<lambda>i. for_each (py_range tly (bry + 1)) (\<lambda>j. cutout_write value channel i j))) input_image = Inr s' \<and>
        ?P ({} \<union> (\<Union>channel \<in> set (py_range 0 CHANNELS). \<Union>i \<in> set (py_range tlx (brx + 1)).
               \<Union>j \<in> set (py_range tly (bry + 1)). {(nat channel, nat i, nat j)})) s'"
    by (rule for_each_inv[where P = ?P, OF fills_init[OF sh]])
       (rule middle, auto simp: set_py_range CHANNELS_def)
  then show ?thesis
    by (simp add: random_cutout_def set_py_range CHANNELS_def)
qed

text \<open>
  C4: for a 3 x 32 x 32 image and draws within their ranges, \<open>random_cutout\<close> returns an
  image that holds the fill value of the channel exactly on the inclusive rectangle
  \<open>tlx \<le> i \<le> brx\<close>, \<open>tly \<le> j \<le> bry\<close> and the input pixel everywhere else; the
  stored fill byte is the drawn value.
\<close>

theorem cutout_rectangle:
  assumes "shape3 3 32 32 input_image"
    and "cutout_contract width height value tlx tly brx bry"
  shows "\<exists>out. random_cutout width height value tlx tly brx bry input_image = Inr out \<and>
           shape3 3 32 32 out \<and>
           (\<forall>c<3. \<forall>i<32. \<forall>j<32.
              px out c i j =
                (if tlx \<le> int i \<and> int i \<le> brx \<and> tly \<le> int j \<and> int j \<le> bry
                 then astype_uint8 (value ! c) else px input_image c i j) \<and>
              uint (astype_uint8 (value ! c)) = value ! c)"
proof -
  from assms(2) have len: "length value = 3" and b: "0 \<le> tlx" "brx \<le> 31" "0 \<le> tly" "bry \<le> 31"
    and v: "\<forall>v \<in> set value. 0 \<le> v \<and> v < 256"
    by (auto simp: cutout_contract_def)
  from cutout_loops[OF assms(1) len b] obtain out where
    out: "random_cutout width height value tlx tly brx bry input_image = Inr out"
    and f: "fills 3 32 32 (\<lambda>c i j. astype_uint8 (value ! c)) input_image
             (\<Union>channel \<in> {0..<3}. \<Union>i \<in> {tlx..<brx + 1}. \<Union>j \<in> {tly..<bry + 1}.
                 {(nat channel, nat i, nat j)}) out"
    by blast
  have mem: "(c, i, j) \<in> (\<Union>channel \<in> {0..<3}. \<Union>i \<in> {tlx..<brx + 1}. \<Union>j \<in> {tly..<bry + 1}.
                 {(nat channel, nat i, nat j)})
      \<longleftrightarrow> tlx \<le> int i \<and> int i \<le> brx \<and> tly \<le> int j \<and> int j \<le> bry" if "c < 3" for c i j
  proof
    assume "(c, i, j) \<in> (\<Union>channel \<in> {0..<3}. \<Union>i \<in> {tlx..<brx + 1}. \<Union>j \<in> {tly..<bry + 1}.
                 {(nat channel, nat i, nat j)})"
    then show "tlx \<le> int i \<and> int i \<le> brx \<and> tly \<le> int j \<and> int j \<le> bry"
      using b by auto
  next
    assume a: "tlx \<le> int i \<and> int i \<le> brx \<and> tly \<le> int j \<and> int j \<le> bry"
    have "int c \<in> {0..<3}" "int i \<in> {tlx..<brx + 1}" "int j \<in> {tly..<bry + 1}"
      using that a by auto
    moreover have "(c, i, j) = (nat (int c), nat (int i), nat (int j))" by simp
    ultimately show "(c, i, j) \<in> (\<Union>channel \<in> {0..<3}. \<Union>i \<in> {tlx..<brx + 1}. \<Union>j \<in> {tly..<bry + 1}.
                 {(nat channel, nat i, nat j)})"
      by blast
  qed
  have val: "uint (astype_uint8 (value ! c)) = value ! c" if "c < 3" for c
  proof -
    have "value ! c \<in> set value" using that len by simp
    with v have "0 \<le> value ! c" "value ! c < 256" by auto
    then show ?thesis by (simp add: astype_uint8_def uint_word_of_int)
  qed
  show ?thesis
    using out f mem val by (simp add: fills_def)
qed

text \<open>
  The scenario of the specification: an image of 100s, the rectangle from (0, 0) to
  (4, 4), the fill (10, 20, 30).
\<close>

theorem cutout_rectangle_witness:
  "\<exists>out. random_cutout 5 5 [10, 20, 30] 0 0 4 4 grey_image = Inr out \<and>
         px out 1 2 3 = 20 \<and> px out 1 4 4 = 20 \<and> px out 1 5 4 = 100 \<and> px out 2 0 0 = 30"
proof -
  have sh: "shape3 3 32 32 grey_image"
    by (simp add: shape3_def shape2_def grey_image_def)
  have ct: "cutout_contract 5 5 [10, 20, 30] 0 0 4 4"
    by (simp add: cutout_contract_def)
  from cutout_rectangle[OF sh ct] obtain out where
    o: "random_cutout 5 5 [10, 20, 30] 0 0 4 4 grey_image = Inr out"
    and p: "\<forall>c<3. \<forall>i<32. \<forall>j<32.
              px out c i j =
                (if 0 \<le> int i \<and> int i \<le> 4 \<and> 0 \<le> int j \<and> int j \<le> 4
                 then astype_uint8 ([10, 20, 30] ! c) else px grey_image c i j) \<and>
              uint (astype_uint8 ([10, 20, 30] ! c)) = [10, 20, 30] ! c"
    by blast
  have "px out 1 2 3 = 20" "px out 1 4 4 = 20" "px out 1 5 4 = 100" "px out 2 0 0 = 30"
    using p by (simp_all add: astype_uint8_def px_def grey_image_def)
  with o show ?thesis by blast
qed

subsection \<open>Padding, slicing and crop\<close>

lemma nat_range_Union: "(\<Union>x \<in> {0..<int n}. {nat x}) = {..<n}"
proof (intro set_eqI iffI)
  fix c assume "c \<in> {..<n}"
  then have "int c \<in> {0..<int n}" "c = nat (int c)" by auto
  then show "c \<in> (\<Union>x \<in> {0..<int n}. {nat x})" by blast
qed auto

lemma shape2_nth: "shape2 H W p \<longleftrightarrow> length p = H \<and> (\<forall>i<H. length (p ! i) = W)"
  by (auto simp: shape2_def all_set_conv_all_nth)

lemma width_shape2: "shape2 H W p \<Longrightarrow> 0 < H \<Longrightarrow> (case p of [] \<Rightarrow> 0 | r # _ \<Rightarrow> length r) = W"
  by (cases p) (auto simp: shape2_def)

lemma np_pad_shape: "shape2 32 32 p \<Longrightarrow> shape2 36 36 (np_pad p)"
  using width_shape2[of 32 32 p] by (auto simp: shape2_def np_pad_def Let_def)

lemma np_pad_nth:
  assumes "shape2 32 32 p" "r < 36" "k < 36"
  shows "np_pad p ! r ! k = (if 2 \<le> r \<and> r < 34 \<and> 2 \<le> k \<and> k < 34 then p ! (r - 2) ! (k - 2) else 0)"
proof -
  have w: "(case p of [] \<Rightarrow> 0 | r # _ \<Rightarrow> length r) = 32" using width_shape2[OF assms(1)] by simp
  have l: "length p = 32" "\<forall>i<32. length (p ! i) = 32" using assms(1) by (auto simp: shape2_nth)
  let ?z = "replicate 36 (0::uint8)"
  have np: "np_pad p = [?z, ?z] @ map (\<lambda>r. [0, 0] @ r @ [0, 0]) p @ [?z, ?z]"
    by (simp add: np_pad_def w Let_def)
  consider "r < 2" | "2 \<le> r" "r < 34" | "34 \<le> r" by linarith
  then show ?thesis
  proof cases
    case 1
    then have "np_pad p ! r = ?z" unfolding np by (cases r) (auto simp: nth_Cons')
    then show ?thesis using 1 assms by simp
  next
    case 2
    then have "np_pad p ! r = [0, 0] @ (p ! (r - 2)) @ [0, 0]"
      unfolding np using l by (auto simp: nth_append nth_Cons' numeral_2_eq_2)
    moreover have "length (p ! (r - 2)) = 32" using 2 l by simp
    ultimately show ?thesis using 2 assms by (auto simp: nth_append nth_Cons' numeral_2_eq_2)
  next
    case 3
    then have "np_pad p ! r = ?z" unfolding np using l assms
      by (auto simp: nth_append nth_Cons')
    then show ?thesis using 3 assms by simp
  qed
qed

lemma py_slice_window:
  assumes "length xs = 36" "0 \<le> lo" "lo \<le> 4"
  shows "py_slice xs lo (lo + 32) = take 32 (drop (nat lo) xs)"
  using assms by (simp add: py_slice_def Let_def min_def nat_diff_distrib)

lemma slice2_shape:
  assumes "shape2 36 36 p" "0 \<le> r0" "r0 \<le> 4" "0 \<le> c0" "c0 \<le> 4"
  shows "shape2 32 32 (slice2 p r0 (r0 + 32) c0 (c0 + 32))"
proof -
  have l: "length p = 36" "\<forall>r \<in> set p. length r = 36" using assms(1) by (auto simp: shape2_def)
  have "\<forall>r \<in> set (take 32 (drop (nat r0) p)). length r = 36"
    using l(2) by (meson in_set_dropD in_set_takeD)
  then show ?thesis using assms(2-) l(1)
    by (auto simp: slice2_def py_slice_window[OF l(1)] shape2_def py_slice_window)
qed

lemma slice2_nth:
  assumes "shape2 36 36 p" "0 \<le> r0" "r0 \<le> 4" "0 \<le> c0" "c0 \<le> 4" "i < 32" "j < 32"
  shows "slice2 p r0 (r0 + 32) c0 (c0 + 32) ! i ! j = p ! (nat r0 + i) ! (nat c0 + j)"
proof -
  have l: "length p = 36" "\<forall>r<36. length (p ! r) = 36" using assms(1) by (auto simp: shape2_nth)
  have r: "nat r0 + i < 36" using assms by auto
  have "slice2 p r0 (r0 + 32) c0 (c0 + 32) ! i = py_slice (p ! (nat r0 + i)) c0 (c0 + 32)"
    using assms l(1) by (simp add: slice2_def py_slice_window)
  also have "\<dots> = take 32 (drop (nat c0) (p ! (nat r0 + i)))"
    using l(2) r assms by (simp add: py_slice_window)
  finally show ?thesis using assms l r by simp
qed

lemma planes_shape3: "planes H W F D s \<Longrightarrow> shape3 3 H W s"
  by (auto simp: planes_def shape3_def all_set_conv_all_nth)

lemma planes_init: "shape3 3 H W s \<Longrightarrow> planes H W F {} s"
  by (auto simp: planes_def shape3_def)

lemma zeros3_shape: "shape3 (nat c) (nat h) (nat w) (zeros3 c h w)"
  by (simp add: zeros3_def shape3_def shape2_def)

lemma assign_plane_same:
  assumes "planes H W F D a" "0 < H" "0 \<le> c" "c < 3" "shape2 H W plane" "plane = F (nat c)"
  shows "\<exists>a'. assign_plane a c plane = Inr a' \<and> planes H W F (D \<union> {nat c}) a'"
proof -
  have c: "nat c < 3" using assms by auto
  have la: "length a = 3" and old: "shape2 H W (a ! nat c)"
    using assms(1) c by (auto simp: planes_def)
  have wo: "(case a ! nat c of [] \<Rightarrow> 0 | r # _ \<Rightarrow> length r) = W"
    by (rule width_shape2[OF old assms(2)])
  have wp: "(case plane of [] \<Rightarrow> 0 | r # _ \<Rightarrow> length r) = W"
    by (rule width_shape2[OF assms(5) assms(2)])
  have lens: "length plane = H" "length (a ! nat c) = H"
    using assms(5) old by (auto simp: shape2_def)
  have "assign_plane a c plane = Inr (a[nat c := plane])"
    using assms(3,4) la by (simp add: assign_plane_def getitem_in wo wp lens setitem_in)
  moreover have "planes H W F (D \<union> {nat c}) (a[nat c := plane])"
    using assms(1,5,6) c by (auto simp: planes_def nth_upd)
  ultimately show ?thesis by simp
qed

lemma crop_result:
  assumes sh: "shape3 3 32 32 input_image"
    and b: "0 \<le> tlx" "tlx \<le> 4" "0 \<le> tly" "tly \<le> 4"
  shows "\<exists>out. random_crop tlx tly input_image = Inr out \<and> shape3 3 32 32 out \<and>
          (\<forall>c<3. \<forall>i<32. \<forall>j<32.
             px out c i j =
               (if 2 \<le> nat tlx + i \<and> nat tlx + i < 34 \<and> 2 \<le> nat tly + j \<and> nat tly + j < 34
                then float_of_uint8 (px input_image c (nat tlx + i - 2) (nat tly + j - 2))
                else 0))"
proof -
  let ?F = "\<lambda>c. map (map float_of_uint8) (np_pad (input_image ! c))"
  let ?G = "\<lambda>c. slice2 (?F c) tlx (tlx + 32) tly (tly + 32)"
  have inp: "length input_image = 3" "\<And>c. c < 3 \<Longrightarrow> shape2 32 32 (input_image ! c)"
    using sh by (auto simp: shape3_def)
  have Fsh: "shape2 36 36 (?F c)" if "c < 3" for c
    using np_pad_shape[OF inp(2)[OF that]] by (auto simp: shape2_def)
  have Gsh: "shape2 32 32 (?G c)" if "c < 3" for c
    by (rule slice2_shape[OF Fsh[OF that] b])
  have z36: "planes 36 36 ?F {} (zeros3 CHANNELS (HEIGHT + 4) (HEIGHT + 4))"
    using zeros3_shape[of 3 36 36] by (auto intro: planes_init simp: CHANNELS_def HEIGHT_def)
  have z32: "planes 32 32 ?G {} (zeros3 CHANNELS HEIGHT HEIGHT)"
    using zeros3_shape[of 3 32 32] by (auto intro: planes_init simp: CHANNELS_def HEIGHT_def)
  have step1: "\<exists>s'. crop_pad input_image channel s = Inr s' \<and> planes 36 36 ?F (D \<union> {nat channel}) s'"
    if "channel \<in> set (py_range 0 CHANNELS)" "planes 36 36 ?F D s" for channel D s
  proof -
    have c: "0 \<le> channel" "channel < 3" "nat channel < 3"
      using that(1) by (auto simp: set_py_range CHANNELS_def)
    have "crop_pad input_image channel s = assign_plane s channel (?F (nat channel))"
      using c inp(1) by (simp add: crop_pad_def getitem_in)
    then show ?thesis
      using assign_plane_same[OF that(2) _ c(1,2) Fsh[OF c(3)]] by simp
  qed
  have "\<exists>padded. for_each (py_range 0 CHANNELS) (crop_pad input_image)
       (zeros3 CHANNELS (HEIGHT + 4) (HEIGHT + 4)) = Inr padded \<and>
     planes 36 36 ?F ({} \<union> (\<Union>x \<in> set (py_range 0 CHANNELS). {nat x})) padded"
    by (rule for_each_inv[where P = "planes 36 36 ?F", OF z36]) (rule step1)
  then obtain padded where pad:
    "for_each (py_range 0 CHANNELS) (crop_pad input_image)
       (zeros3 CHANNELS (HEIGHT + 4) (HEIGHT + 4)) = Inr padded"
    and padp: "planes 36 36 ?F ({} \<union> (\<Union>x \<in> set (py_range 0 CHANNELS). {nat x})) padded"
    by blast
  have all3: "(\<Union>x \<in> set (py_range 0 CHANNELS). {nat x}) = {..<3}"
    using nat_range_Union[of 3] by (simp add: set_py_range CHANNELS_def)
  have padded: "length padded = 3" "\<And>c. c < 3 \<Longrightarrow> padded ! c = ?F c"
    using padp by (auto simp: planes_def all3)
  have step2: "\<exists>s'. crop_window padded tlx (tlx + HEIGHT) tly (tly + HEIGHT) channel s = Inr s' \<and>
        planes 32 32 ?G (D \<union> {nat channel}) s'"
    if "channel \<in> set (py_range 0 CHANNELS)" "planes 32 32 ?G D s" for channel D s
  proof -
    have c: "0 \<le> channel" "channel < 3" "nat channel < 3"
      using that(1) by (auto simp: set_py_range CHANNELS_def)
    have "crop_window padded tlx (tlx + HEIGHT) tly (tly + HEIGHT) channel s
            = assign_plane s channel (?G (nat channel))"
      using c padded by (simp add: crop_window_def getitem_in HEIGHT_def)
    then show ?thesis
      using assign_plane_same[OF that(2) _ c(1,2) Gsh[OF c(3)]] by simp
  qed
  have "\<exists>out. for_each (py_range 0 CHANNELS)
       (crop_window padded tlx (tlx + HEIGHT) tly (tly + HEIGHT))
       (zeros3 CHANNELS HEIGHT HEIGHT) = Inr out \<and>
     planes 32 32 ?G ({} \<union> (\<Union>x \<in> set (py_range 0 CHANNELS). {nat x})) out"
    by (rule for_each_inv[where P = "planes 32 32 ?G", OF z32]) (rule step2)
  then obtain out where out:
    "for_each (py_range 0 CHANNELS) (crop_window padded tlx (tlx + HEIGHT) tly (tly + HEIGHT))
       (zeros3 CHANNELS HEIGHT HEIGHT) = Inr out"
    and outp: "planes 32 32 ?G ({} \<union> (\<Union>x \<in> set (py_range 0 CHANNELS). {nat x})) out"
    by blast
  have res: "random_crop tlx tly input_image = Inr out"
    using pad out by (simp add: random_crop_def)
  have outc: "\<And>c. c < 3 \<Longrightarrow> out ! c = ?G c"
    using outp by (auto simp: planes_def all3)
  have pix: "px out c i j =
               (if 2 \<le> nat tlx + i \<and> nat tlx + i < 34 \<and> 2 \<le> nat tly + j \<and> nat tly + j < 34
                then float_of_uint8 (px input_image c (nat tlx + i - 2) (nat tly + j - 2))
                else 0)" if "c < 3" "i < 32" "j < 32" for c i j
  proof -
    have r: "nat tlx + i < 36" "nat tly + j < 36" using b that by auto
    have np: "shape2 36 36 (np_pad (input_image ! c))"
      by (rule np_pad_shape[OF inp(2)[OF that(1)]])
    then have ln: "length (np_pad (input_image ! c)) = 36"
      "length (np_pad (input_image ! c) ! (nat tlx + i)) = 36"
      using r by (auto simp: shape2_nth)
    have "px out c i j = ?F c ! (nat tlx + i) ! (nat tly + j)"
      using slice2_nth[OF Fsh[OF that(1)] b that(2,3)] outc[OF that(1)] by (simp add: px_def)
    also have "\<dots> = float_of_uint8 (np_pad (input_image ! c) ! (nat tlx + i) ! (nat tly + j))"
      using ln r by simp
    also have "\<dots> = (if 2 \<le> nat tlx + i \<and> nat tlx + i < 34 \<and> 2 \<le> nat tly + j \<and> nat tly + j < 34
                then float_of_uint8 (px input_image c (nat tlx + i - 2) (nat tly + j - 2))
                else 0)"
      using np_pad_nth[OF inp(2)[OF that(1)] r] by (simp add: px_def float_of_uint8_def)
    finally show ?thesis .
  qed
  show ?thesis using res planes_shape3[OF outp] pix by blast
qed

lemma triple_loop:
  assumes "P D s"
    and "\<And>x y z D s. x \<in> set xs \<Longrightarrow> y \<in> set ys \<Longrightarrow> z \<in> set zs \<Longrightarrow> P D s \<Longrightarrow>
           \<exists>s'. body x y z s = Inr s' \<and> P (D \<union> wp x y z) s'"
  shows "\<exists>s'. for_each xs (\<lambda>x. for_each ys (\<lambda>y. for_each zs (body x y))) s = Inr s' \<and>
           P (D \<union> (\<Union>x \<in> set xs. \<Union>y \<in> set ys. \<Union>z \<in> set zs. wp x y z)) s'"
proof -
  have inner: "\<exists>s'. for_each zs (body x y) s = Inr s' \<and> P (D \<union> (\<Union>z \<in> set zs. wp x y z)) s'"
    if "x \<in> set xs" "y \<in> set ys" "P D s" for x y D s
    by (rule for_each_inv[where P = P, OF that(3)]) (rule assms(2)[OF that(1,2)])
  have middle: "\<exists>s'. for_each ys (\<lambda>y. for_each zs (body x y)) s = Inr s' \<and>
        P (D \<union> (\<Union>y \<in> set ys. \<Union>z \<in> set zs. wp x y z)) s'"
    if "x \<in> set xs" "P D s" for x D s
    by (rule for_each_inv[where P = P, OF that(2)]) (rule inner[OF that(1)])
  show ?thesis
    by (rule for_each_inv[where P = P, OF assms(1)]) (rule middle)
qed

lemma array3_eqI:
  assumes "shape3 C H W a" "shape3 C H W b"
    and "\<And>c i j. c < C \<Longrightarrow> i < H \<Longrightarrow> j < W \<Longrightarrow> px a c i j = px b c i j"
  shows "a = b"
proof (rule nth_equalityI)
  show "length a = length b" using assms(1,2) by (simp add: shape3_nth)
next
  fix c assume "c < length a"
  then have c: "c < C" using assms(1) by (simp add: shape3_nth)
  show "a ! c = b ! c"
  proof (rule nth_equalityI)
    show "length (a ! c) = length (b ! c)" using assms(1,2) c by (simp add: shape3_nth)
  next
    fix i assume "i < length (a ! c)"
    then have i: "i < H" using assms(1) c by (simp add: shape3_nth)
    show "a ! c ! i = b ! c ! i"
    proof (rule nth_equalityI)
      show "length (a ! c ! i) = length (b ! c ! i)" using assms(1,2) c i by (simp add: shape3_nth)
    next
      fix j assume "j < length (a ! c ! i)"
      then have "j < W" using assms(1) c i by (simp add: shape3_nth)
      from assms(3)[OF c i this] show "a ! c ! i ! j = b ! c ! i ! j" by (simp add: px_def)
    qed
  qed
qed

lemma shape3_map: "shape3 C H W a \<Longrightarrow> shape3 C H W (map (map (map f)) a)"
  by (auto simp: shape3_def shape2_def)

lemma px_map:
  "shape3 C H W a \<Longrightarrow> c < C \<Longrightarrow> i < H \<Longrightarrow> j < W \<Longrightarrow>
     px (map (map (map f)) a) c i j = f (px a c i j)"
  by (simp add: shape3_nth px_def)

lemma px_zeros3:
  "c < nat C \<Longrightarrow> i < nat H \<Longrightarrow> j < nat W \<Longrightarrow> px (zeros3 C H W) c i j = 0"
  by (simp add: zeros3_def px_def)

text \<open>
  C5: for a 3 x 32 x 32 image and offsets \<open>tlx\<close>, \<open>tly\<close> in 0..4, \<open>random_crop\<close> returns
  a 3 x 32 x 32 array whose element at row \<open>i\<close>, column \<open>j\<close> is the element at row
  \<open>tlx + i\<close>, column \<open>tly + j\<close> of the image padded with two zeros on every side; with
  \<open>tlx = tly = 2\<close> the result is the input image.
\<close>

theorem crop_window_of_padded:
  assumes "shape3 3 32 32 input_image" "0 \<le> tlx" "tlx \<le> 4" "0 \<le> tly" "tly \<le> 4"
  shows "\<exists>out. random_crop tlx tly input_image = Inr out \<and> shape3 3 32 32 out \<and>
          (\<forall>c<3. \<forall>i<32. \<forall>j<32.
             px out c i j =
               (if 2 \<le> nat tlx + i \<and> nat tlx + i < 34 \<and> 2 \<le> nat tly + j \<and> nat tly + j < 34
                then float_of_uint8 (px input_image c (nat tlx + i - 2) (nat tly + j - 2))
                else 0)) \<and>
          (tlx = 2 \<and> tly = 2 \<longrightarrow> out = to_float input_image)"
proof -
  from crop_result[OF assms] obtain out where
    o: "random_crop tlx tly input_image = Inr out" "shape3 3 32 32 out"
    and p: "\<forall>c<3. \<forall>i<32. \<forall>j<32.
             px out c i j =
               (if 2 \<le> nat tlx + i \<and> nat tlx + i < 34 \<and> 2 \<le> nat tly + j \<and> nat tly + j < 34
                then float_of_uint8 (px input_image c (nat tlx + i - 2) (nat tly + j - 2))
                else 0)"
    by blast
  have "out = to_float input_image" if "tlx = 2 \<and> tly = 2"
  proof (rule array3_eqI[OF o(2)])
    show "shape3 3 32 32 (to_float input_image)"
      unfolding to_float_def by (rule shape3_map[OF assms(1)])
  next
    fix c i j :: nat assume cij: "c < 3" "i < 32" "j < 32"
    then have "px out c i j = float_of_uint8 (px input_image c i j)"
      using p that by simp
    then show "px out c i j = px (to_float input_image) c i j"
      unfolding to_float_def by (simp add: px_map[OF assms(1) cij])
  qed
  with o p show ?thesis by blast
qed

subsection \<open>Contrast and flip\<close>

lemma uint8_range: "0 \<le> float_of_uint8 v \<and> float_of_uint8 v \<le> 255"
proof -
  have "unat v < 2 ^ 8" using unsigned_less[of v, where 'a = nat] by simp
  then have "unat v \<le> 255" by simp
  then have "real (unat v) \<le> real 255" by (rule of_nat_mono)
  then have b: "real (unat v) \<le> 255" by (simp only: of_nat_numeral)
  have a: "0 \<le> real (unat v)" by (rule of_nat_0_le_iff)
  show ?thesis unfolding float_of_uint8_def by (intro conjI a b)
qed

lemma contrast_write_fills:
  assumes "fills 3 32 32 (\<lambda>c i j. alpha * of_int (uint (px input_image c i j) - 128) + 128) s0 D s"
    and "shape3 3 32 32 input_image"
    and "0 \<le> channel" "channel < 3" "0 \<le> i" "i < 32" "0 \<le> j" "j < 32"
  shows "\<exists>s'. contrast_write alpha input_image channel i j s = Inr s' \<and>
           fills 3 32 32 (\<lambda>c i j. alpha * of_int (uint (px input_image c i j) - 128) + 128) s0
             (D \<union> {(nat channel, nat i, nat j)}) s'"
proof -
  let ?F = "\<lambda>c i j. alpha * of_int (uint (px input_image c i j) - 128) + 128"
  have sh: "shape3 3 32 32 s" using assms(1) by (simp add: fills_def)
  have "contrast_write alpha input_image channel i j s
          = Inr (put3 s (nat channel) (nat i) (nat j) (?F (nat channel) (nat i) (nat j)))"
    using assms(3-) by (simp add: contrast_write_def get3_in[OF assms(2)] set3_in[OF sh])
  moreover have "fills 3 32 32 ?F s0 (D \<union> {(nat channel, nat i, nat j)})
      (put3 s (nat channel) (nat i) (nat j) (?F (nat channel) (nat i) (nat j)))"
    by (rule fills_put3[OF assms(1)]) (use assms(3-) in auto)
  ultimately show ?thesis by simp
qed

lemma all_positions:
  "(\<Union>c \<in> {0..<int C}. \<Union>i \<in> {0..<int H}. \<Union>j \<in> {0..<int W}. {(nat c, nat i, nat j)})
      = {(c, i, j). c < C \<and> i < H \<and> j < W}"
proof (intro set_eqI iffI)
  fix p assume "p \<in> {(c, i, j). c < C \<and> i < H \<and> j < W}"
  then obtain c i j where p: "p = (c, i, j)" "c < C" "i < H" "j < W" by auto
  then have "int c \<in> {0..<int C}" "int i \<in> {0..<int H}" "int j \<in> {0..<int W}"
    "p = (nat (int c), nat (int i), nat (int j))" by auto
  then show "p \<in> (\<Union>c \<in> {0..<int C}. \<Union>i \<in> {0..<int H}. \<Union>j \<in> {0..<int W}. {(nat c, nat i, nat j)})"
    by blast
qed auto

lemma contrast_loop_result:
  assumes sh: "shape3 3 32 32 input_image"
  shows "\<exists>raw. contrast_loop alpha input_image (zeros3 CHANNELS HEIGHT HEIGHT) = Inr raw \<and>
           shape3 3 32 32 raw \<and>
           (\<forall>c<3. \<forall>i<32. \<forall>j<32.
              px raw c i j = alpha * of_int (uint (px input_image c i j) - 128) + 128)"
proof -
  let ?F = "\<lambda>c i j. alpha * of_int (uint (px input_image c i j) - 128) + 128"
  let ?z = "zeros3 CHANNELS HEIGHT HEIGHT"
  have z: "fills 3 32 32 ?F ?z {} ?z"
    using zeros3_shape[of 3 32 32] by (auto intro: fills_init simp: CHANNELS_def HEIGHT_def)
  have "\<exists>raw. for_each (py_range 0 CHANNELS)
       (\<lambda>channel. for_each (py_range 0 32)
          (\<lambda>i. for_each (py_range 0 32) (contrast_write alpha input_image channel i))) ?z = Inr raw \<and>
      fills 3 32 32 ?F ?z ({} \<union> (\<Union>channel \<in> set (py_range 0 CHANNELS). \<Union>i \<in> set (py_range 0 32).
          \<Union>j \<in> set (py_range 0 32). {(nat channel, nat i, nat j)})) raw"
    by (rule triple_loop[where P = "fills 3 32 32 ?F ?z", OF z])
       (rule contrast_write_fills, auto simp: sh set_py_range CHANNELS_def)
  then obtain raw where raw: "contrast_loop alpha input_image ?z = Inr raw"
    and f: "fills 3 32 32 ?F ?z {(c, i, j). c < 3 \<and> i < 32 \<and> j < 32} raw"
    using all_positions[where C = 3 and H = 32 and W = 32] by (auto simp: contrast_loop_def set_py_range CHANNELS_def)
  show ?thesis using raw f by (auto simp: fills_def)
qed

lemma contrast_stage_result:
  assumes sh: "shape3 3 32 32 input_image"
  shows "\<exists>raw out. contrast_loop alpha input_image (zeros3 CHANNELS HEIGHT HEIGHT) = Inr raw \<and>
           (\<forall>c<3. \<forall>i<32. \<forall>j<32.
              px raw c i j = alpha * of_int (uint (px input_image c i j) - 128) + 128) \<and>
           contrast_stage alpha input_image = Inr out \<and> out = np_clip raw 0 255 \<and>
           shape3 3 32 32 out \<and>
           (\<forall>c<3. \<forall>i<32. \<forall>j<32.
              px out c i j =
                min (max (alpha * of_int (uint (px input_image c i j) - 128) + 128) 0) 255)"
proof -
  from contrast_loop_result[OF sh, of alpha] obtain raw where
    raw: "contrast_loop alpha input_image (zeros3 CHANNELS HEIGHT HEIGHT) = Inr raw"
      "shape3 3 32 32 raw"
    and p: "\<forall>c<3. \<forall>i<32. \<forall>j<32.
              px raw c i j = alpha * of_int (uint (px input_image c i j) - 128) + 128"
    by blast
  have st: "contrast_stage alpha input_image = Inr (np_clip raw 0 255)"
    using raw(1) by (simp add: contrast_stage_def)
  have shc: "shape3 3 32 32 (np_clip raw 0 255)"
    unfolding np_clip_def by (rule shape3_map[OF raw(2)])
  have "px (np_clip raw 0 255) c i j =
          min (max (alpha * of_int (uint (px input_image c i j) - 128) + 128) 0) 255"
    if "c < 3" "i < 32" "j < 32" for c i j
    unfolding np_clip_def using p that by (simp add: px_map[OF raw(2) that])
  with raw(1) p st shc show ?thesis by blast
qed

lemma flip_swap_fills:
  assumes "fills 3 32 32 (\<lambda>c i j. float_of_uint8 (px input_image c i (31 - j))) s0 D s"
    and "shape3 3 32 32 input_image"
    and "0 \<le> channel" "channel < 3" "0 \<le> i" "i < 32" "0 \<le> j" "j < 16"
  shows "\<exists>s'. flip_swap input_image channel i j s = Inr s' \<and>
           fills 3 32 32 (\<lambda>c i j. float_of_uint8 (px input_image c i (31 - j))) s0
             (D \<union> ({(nat channel, nat i, nat j)} \<union> {(nat channel, nat i, nat (31 - j))})) s'"
proof -
  let ?F = "\<lambda>c i j. float_of_uint8 (px input_image c i (31 - j))"
  let ?c = "nat channel" and ?i = "nat i" and ?j = "nat j" and ?k = "nat (31 - j)"
  have sh: "shape3 3 32 32 s" using assms(1) by (simp add: fills_def)
  have k: "31 - ?j = ?k" "31 - ?k = ?j" "?k < 32" "?j < 32" using assms(7,8) by auto
  let ?s1 = "put3 s ?c ?i ?j (?F ?c ?i ?j)"
  let ?s2 = "put3 ?s1 ?c ?i ?k (?F ?c ?i ?k)"
  have f1: "fills 3 32 32 ?F s0 (D \<union> {(?c, ?i, ?j)}) ?s1"
    by (rule fills_put3[OF assms(1)]) (use assms(3-) in auto)
  have f2: "fills 3 32 32 ?F s0 ((D \<union> {(?c, ?i, ?j)}) \<union> {(?c, ?i, ?k)}) ?s2"
    by (rule fills_put3[OF f1]) (use assms(3-) in auto)
  have g1: "get3 input_image channel i (HEIGHT - 1 - j) = Inr (px input_image ?c ?i ?k)"
    using assms(3-) by (simp add: HEIGHT_def get3_in[OF assms(2)])
  have g2: "get3 input_image channel i j = Inr (px input_image ?c ?i ?j)"
    using assms(3-) by (simp add: get3_in[OF assms(2)])
  have w1: "set3 s channel i j v = Inr (put3 s ?c ?i ?j v)" for v
    using assms(3-) by (simp add: set3_in[OF sh])
  have w2: "set3 s' channel i (HEIGHT - 1 - j) v = Inr (put3 s' ?c ?i ?k v)"
    if "shape3 3 32 32 s'" for s' v
    using assms(3-) by (simp add: HEIGHT_def set3_in[OF that])
  have "flip_swap input_image channel i j s
          = Inr (put3 (put3 s ?c ?i ?j (float_of_uint8 (px input_image ?c ?i ?k)))
                   ?c ?i ?k (float_of_uint8 (px input_image ?c ?i ?j)))"
    by (simp add: flip_swap_def g1 g2 w1 w2 shape3_put3[OF sh])
  also have "\<dots> = Inr ?s2" by (simp only: k)
  finally show ?thesis using f2 by (simp add: Un_assoc)
qed

lemma flip_positions:
  "(\<Union>c \<in> {0..<3::int}. \<Union>i \<in> {0..<32::int}. \<Union>j \<in> {0..<16::int}.
       {(nat c, nat i, nat j)} \<union> {(nat c, nat i, nat (31 - j))})
     = {(c, i, j). c < (3::nat) \<and> i < (32::nat) \<and> j < (32::nat)}"
proof (intro set_eqI iffI)
  fix p assume "p \<in> {(c, i, j). c < (3::nat) \<and> i < (32::nat) \<and> j < (32::nat)}"
  then obtain c i j :: nat where p: "p = (c, i, j)" "c < 3" "i < 32" "j < 32" by auto
  have ci: "int c \<in> {0..<3}" "int i \<in> {0..<32}" "c = nat (int c)" "i = nat (int i)"
    using p by auto
  show "p \<in> (\<Union>c \<in> {0..<3::int}. \<Union>i \<in> {0..<32::int}. \<Union>j \<in> {0..<16::int}.
       {(nat c, nat i, nat j)} \<union> {(nat c, nat i, nat (31 - j))})"
  proof (cases "j < 16")
    case True
    then have "int j \<in> {0..<16}" "j = nat (int j)" by auto
    with ci p(1) show ?thesis by blast
  next
    case False
    then have "31 - int j \<in> {0..<16}" "j = nat (31 - (31 - int j))" using p(4) by auto
    with ci p(1) show ?thesis by blast
  qed
qed auto

lemma flip_stage_result:
  assumes sh: "shape3 3 32 32 input_image" and sho: "shape3 3 32 32 output_image"
  shows "\<exists>out. flip_stage input_image output_image = Inr out \<and> shape3 3 32 32 out \<and>
           (\<forall>c<3. \<forall>i<32. \<forall>j<32. px out c i j = float_of_uint8 (px input_image c i (31 - j)))"
proof -
  let ?F = "\<lambda>c i j. float_of_uint8 (px input_image c i (31 - j))"
  have "\<exists>out. for_each (py_range 0 CHANNELS)
       (\<lambda>channel. for_each (py_range 0 HEIGHT)
          (\<lambda>i. for_each (py_range 0 (HEIGHT div 2)) (flip_swap input_image channel i))) output_image
        = Inr out \<and>
      fills 3 32 32 ?F output_image ({} \<union> (\<Union>channel \<in> set (py_range 0 CHANNELS).
          \<Union>i \<in> set (py_range 0 HEIGHT). \<Union>j \<in> set (py_range 0 (HEIGHT div 2)).
             {(nat channel, nat i, nat j)} \<union> {(nat channel, nat i, nat (31 - j))})) out"
    by (rule triple_loop[where P = "fills 3 32 32 ?F output_image", OF fills_init[OF sho]])
       (rule flip_swap_fills, auto simp: sh set_py_range CHANNELS_def HEIGHT_def)
  then obtain out where out: "flip_stage input_image output_image = Inr out"
    and f: "fills 3 32 32 ?F output_image {(c, i, j). c < 3 \<and> i < 32 \<and> j < 32} out"
    using flip_positions by (auto simp: flip_stage_def set_py_range CHANNELS_def HEIGHT_def)
  show ?thesis using out f by (auto simp: fills_def)
qed

lemma grey_shape: "shape3 3 32 32 grey_image"
  by (simp add: shape3_def shape2_def grey_image_def)

lemma ramp_shape: "shape3 3 32 32 ramp_image"
  by (simp add: shape3_def shape2_def ramp_image_def)

lemma px_grey: "c < 3 \<Longrightarrow> i < 32 \<Longrightarrow> j < 32 \<Longrightarrow> px grey_image c i j = 100"
  by (simp add: px_def grey_image_def)

lemma px_ramp: "c < 3 \<Longrightarrow> i < 32 \<Longrightarrow> j < 32 \<Longrightarrow> px ramp_image c i j = of_nat j"
  by (simp add: px_def ramp_image_def)

lemma flip_result:
  assumes sh: "shape3 3 32 32 input_image" and p: "probability > 0.5"
  shows "\<exists>out. contrast_and_horizontal_flipping alpha probability input_image = Inr out \<and>
           shape3 3 32 32 out \<and>
           (\<forall>c<3. \<forall>i<32. \<forall>j<32. px out c i j = float_of_uint8 (px input_image c i (31 - j)))"
proof -
  from contrast_stage_result[OF sh, of alpha] obtain cs where
    cs: "contrast_stage alpha input_image = Inr cs" "shape3 3 32 32 cs" by blast
  from flip_stage_result[OF sh cs(2)] cs(1) p show ?thesis
    by (simp add: contrast_and_horizontal_flipping_def)
qed

lemma no_flip_result:
  assumes sh: "shape3 3 32 32 input_image" and p: "probability \<le> 0.5"
  shows "contrast_and_horizontal_flipping alpha probability input_image
           = contrast_stage alpha input_image"
  using p by (simp add: contrast_and_horizontal_flipping_def split: sum.splits)

text \<open>
  The centre offset on the image of 100s.
\<close>

theorem crop_window_of_padded_witness:
  "\<exists>out. random_crop 2 2 grey_image = Inr out \<and> out = to_float grey_image \<and> px out 0 0 0 = 100"
proof -
  from crop_window_of_padded[OF grey_shape, of 2 2] obtain out where
    o: "random_crop 2 2 grey_image = Inr out" "out = to_float grey_image" by auto
  have "px (to_float grey_image) 0 0 0 = 100"
    by (simp add: to_float_def px_def grey_image_def float_of_uint8_def)
  with o show ?thesis by blast
qed

text \<open>
  C6: on a 3 x 32 x 32 image the contrast loop fills a fresh array with
  \<open>alpha * (input - 128) + 128\<close> at every pixel of every channel, unclipped; the
  contrast stage is that array clipped once to 0..255; with \<open>alpha = 1\<close> it is the input
  image.
\<close>

theorem contrast_stage_clip:
  assumes "shape3 3 32 32 input_image"
  shows "\<exists>raw out.
           contrast_loop alpha input_image (zeros3 CHANNELS HEIGHT HEIGHT) = Inr raw \<and>
           (\<forall>c<3. \<forall>i<32. \<forall>j<32.
              px raw c i j = alpha * of_int (uint (px input_image c i j) - 128) + 128) \<and>
           contrast_stage alpha input_image = Inr out \<and> out = np_clip raw 0 255 \<and>
           (\<forall>c<3. \<forall>i<32. \<forall>j<32.
              px out c i j =
                min (max (alpha * of_int (uint (px input_image c i j) - 128) + 128) 0) 255) \<and>
           (alpha = 1 \<longrightarrow> out = to_float input_image)"
proof -
  from contrast_stage_result[OF assms, of alpha] obtain raw out where
    r: "contrast_loop alpha input_image (zeros3 CHANNELS HEIGHT HEIGHT) = Inr raw"
       "\<forall>c<3. \<forall>i<32. \<forall>j<32.
              px raw c i j = alpha * of_int (uint (px input_image c i j) - 128) + 128"
       "contrast_stage alpha input_image = Inr out" "out = np_clip raw 0 255"
    and sh: "shape3 3 32 32 out"
    and p: "\<forall>c<3. \<forall>i<32. \<forall>j<32.
              px out c i j =
                min (max (alpha * of_int (uint (px input_image c i j) - 128) + 128) 0) 255"
    by blast
  have "out = to_float input_image" if "alpha = 1"
  proof (rule array3_eqI[OF sh])
    show "shape3 3 32 32 (to_float input_image)"
      unfolding to_float_def by (rule shape3_map[OF assms])
  next
    fix c i j :: nat assume cij: "c < 3" "i < 32" "j < 32"
    let ?v = "px input_image c i j"
    have "px out c i j = min (max (float_of_uint8 ?v) 0) 255"
      using p cij that by (simp add: float_of_uint8_def)
    also have "\<dots> = float_of_uint8 ?v" using uint8_range[of ?v] by simp
    finally show "px out c i j = px (to_float input_image) c i j"
      unfolding to_float_def by (simp add: px_map[OF assms cij])
  qed
  with r p show ?thesis by blast
qed

text \<open>
  The factor 1 on the image of 100s.
\<close>

theorem contrast_stage_clip_witness:
  "\<exists>out. contrast_stage 1 grey_image = Inr out \<and> out = to_float grey_image"
  using contrast_stage_clip[OF grey_shape, of 1] by auto

text \<open>
  C1, at a failing input: the image whose pixels are their column numbers, \<open>alpha = 0.5\<close>
  and the draw 0.9 for the flip. The contrast stage holds 79.5 in column 31; the
  specification asks that the flipped output hold that value in column 0; the source
  stores the untouched input pixel 31 there.
\<close>

theorem flip_discards_contrast:
  "\<exists>out cs. contrast_and_horizontal_flipping 0.5 0.9 ramp_image = Inr out \<and>
            contrast_stage 0.5 ramp_image = Inr cs \<and>
            px ramp_image 0 0 31 = 31 \<and> px cs 0 0 31 = 79.5 \<and> px out 0 0 0 = 31"
proof -
  from flip_result[OF ramp_shape, where probability = "0.9" and alpha = "0.5"] obtain out where
    o: "contrast_and_horizontal_flipping 0.5 0.9 ramp_image = Inr out"
    and po: "\<forall>c<3. \<forall>i<32. \<forall>j<32. px out c i j = float_of_uint8 (px ramp_image c i (31 - j))"
    by auto
  from contrast_stage_result[OF ramp_shape, where alpha = "0.5"] obtain cs where
    c: "contrast_stage 0.5 ramp_image = Inr cs"
    and pc: "\<forall>c<3. \<forall>i<32. \<forall>j<32.
              px cs c i j = min (max (0.5 * of_int (uint (px ramp_image c i j) - 128) + 128) 0) 255"
    by blast
  have r: "px ramp_image 0 0 31 = 31" by (simp add: px_ramp)
  have "px out 0 0 0 = 31" using po r by (simp add: float_of_uint8_def)
  moreover have "px cs 0 0 31 = 79.5" using pc r by simp
  ultimately show ?thesis using o c r by blast
qed

text \<open>
  C10: draws within their ranges keep every index in bounds. The rows and columns the fill
  loop of \<open>random_cutout\<close> visits lie in 0..31, and the transformation returns; the slice
  bounds of \<open>random_crop\<close> lie within the 36 x 36 padded planes, the window of such a plane
  is a full 32 x 32 block, and the transformation returns a 3 x 32 x 32 array.
\<close>

theorem index_bounds:
  assumes "shape3 3 32 32 input_image"
  shows "(cutout_contract width height value tlx tly brx bry \<longrightarrow>
            (\<forall>i \<in> set (py_range tlx (brx + 1)). \<forall>j \<in> set (py_range tly (bry + 1)).
               0 \<le> i \<and> i \<le> 31 \<and> 0 \<le> j \<and> j \<le> 31) \<and>
            (\<exists>out. random_cutout width height value tlx tly brx bry input_image = Inr out)) \<and>
         (0 \<le> ctlx \<and> ctlx \<le> 4 \<and> 0 \<le> ctly \<and> ctly \<le> 4 \<longrightarrow>
            0 \<le> ctlx \<and> ctlx + HEIGHT \<le> HEIGHT + 4 \<and> 0 \<le> ctly \<and> ctly + HEIGHT \<le> HEIGHT + 4 \<and>
            (\<forall>plane :: real array2. shape2 36 36 plane \<longrightarrow>
               shape2 32 32 (slice2 plane ctlx (ctlx + HEIGHT) ctly (ctly + HEIGHT))) \<and>
            (\<exists>out. random_crop ctlx ctly input_image = Inr out \<and> shape3 3 32 32 out))"
proof (intro conjI impI)
  assume c: "cutout_contract width height value tlx tly brx bry"
  then show "\<forall>i \<in> set (py_range tlx (brx + 1)). \<forall>j \<in> set (py_range tly (bry + 1)).
               0 \<le> i \<and> i \<le> 31 \<and> 0 \<le> j \<and> j \<le> 31"
    by (auto simp: cutout_contract_def set_py_range)
  from c have "length value = 3" "0 \<le> tlx" "brx \<le> 31" "0 \<le> tly" "bry \<le> 31"
    by (auto simp: cutout_contract_def)
  from cutout_loops[OF assms this]
  show "\<exists>out. random_cutout width height value tlx tly brx bry input_image = Inr out"
    by blast
next
  assume b: "0 \<le> ctlx \<and> ctlx \<le> 4 \<and> 0 \<le> ctly \<and> ctly \<le> 4"
  then show "0 \<le> ctlx" "ctlx + HEIGHT \<le> HEIGHT + 4" "0 \<le> ctly" "ctly + HEIGHT \<le> HEIGHT + 4"
    by simp_all
  show "\<forall>plane :: real array2. shape2 36 36 plane \<longrightarrow>
               shape2 32 32 (slice2 plane ctlx (ctlx + HEIGHT) ctly (ctly + HEIGHT))"
    using b slice2_shape by (auto simp: HEIGHT_def)
  from crop_result[OF assms, of ctlx ctly] b
  show "\<exists>out. random_crop ctlx ctly input_image = Inr out \<and> shape3 3 32 32 out"
    by blast
qed

text \<open>
  The extreme draws: the largest block in the bottom right corner, the offsets 4 and 0.
\<close>

theorem index_bounds_witness:
  "(\<exists>out. random_cutout 16 16 [0, 255, 7] 15 15 31 31 grey_image = Inr out) \<and>
   (\<exists>out. random_crop 4 0 grey_image = Inr out \<and> shape3 3 32 32 out)"
proof -
  have "cutout_contract 16 16 [0, 255, 7] 15 15 31 31"
    by (simp add: cutout_contract_def)
  moreover have "(0::int) \<le> 4 \<and> (4::int) \<le> 4 \<and> (0::int) \<le> 0 \<and> (0::int) \<le> 4" by simp
  ultimately show ?thesis
    using index_bounds[OF grey_shape, of 16 16 "[0, 255, 7]" 15 15 31 31 4 0] by blast
qed

subsection \<open>Rotation\<close>

lemma rint_bounds: "\<lfloor>x\<rfloor> \<le> rint x \<and> rint x \<le> \<lfloor>x\<rfloor> + 1"
  by (simp add: rint_def Let_def)

lemma rint_of_int: "rint (of_int n) = n"
  by (simp add: rint_def)

lemma centred_bound:
  assumes "0 \<le> i" "i < 32" "0 \<le> j" "j < 32" "\<bar>c\<bar> \<le> 1" "\<bar>s\<bar> \<le> 1"
  shows "\<bar>(of_int i - 15.5) * c + (of_int j - 15.5) * s\<bar> \<le> (31::real)"
proof -
  have "i \<le> 31" "j \<le> 31" using assms by auto
  then have le: "(of_int i :: real) \<le> 31" "(of_int j :: real) \<le> 31"
    by (simp_all only: of_int_le_numeral_iff)
  have ge: "(0::real) \<le> of_int i" "(0::real) \<le> of_int j" using assms by simp_all
  have i: "\<bar>of_int i - 15.5 :: real\<bar> \<le> 15.5" using le(1) ge(1) by linarith
  have j: "\<bar>of_int j - 15.5 :: real\<bar> \<le> 15.5" using le(2) ge(2) by linarith
  have "\<bar>(of_int i - 15.5) * c\<bar> \<le> 15.5 * 1"
    unfolding abs_mult by (rule mult_mono[OF i assms(5)]) simp_all
  moreover have "\<bar>(of_int j - 15.5) * s\<bar> \<le> 15.5 * 1"
    unfolding abs_mult by (rule mult_mono[OF j assms(6)]) simp_all
  ultimately show ?thesis by linarith
qed

lemma dst_bounds:
  assumes "0 \<le> i" "i < 32" "0 \<le> j" "j < 32"
  shows "- 16 \<le> rint (dst_row theta i j) \<and> rint (dst_row theta i j) \<le> 47"
    and "- 16 \<le> rint (dst_col theta i j) \<and> rint (dst_col theta i j) \<le> 47"
proof -
  have r: "\<bar>dst_row theta i j - 15.5\<bar> \<le> 31"
    using centred_bound[OF assms, of "cos theta" "sin theta"] by (simp add: dst_row_def)
  have c: "\<bar>dst_col theta i j - 15.5\<bar> \<le> 31"
    using centred_bound[OF assms(3,4,1,2), of "cos theta" "- sin theta"]
    by (simp add: dst_col_def)
  have fl: "- 16 \<le> \<lfloor>x\<rfloor> \<and> \<lfloor>x\<rfloor> \<le> 46" if "\<bar>x - 15.5\<bar> \<le> 31" for x :: real
  proof -
    have "- 16 \<le> x" "x < 47" using that by (auto simp: abs_le_iff)
    then show ?thesis by (simp add: le_floor_iff floor_less_iff)
  qed
  show "- 16 \<le> rint (dst_row theta i j) \<and> rint (dst_row theta i j) \<le> 47"
    using fl[OF r] rint_bounds[of "dst_row theta i j"] by linarith
  show "- 16 \<le> rint (dst_col theta i j) \<and> rint (dst_col theta i j) \<le> 47"
    using fl[OF c] rint_bounds[of "dst_col theta i j"] by linarith
qed

lemma uint8_test:
  assumes "- 16 \<le> r" "r \<le> 47"
  shows "(astype_uint8 r \<ge> 0 \<and> astype_uint8 r < 32) \<longleftrightarrow> (0 \<le> r \<and> r < 32)"
    and "0 \<le> r \<Longrightarrow> uint (astype_uint8 r) = r"
proof -
  have u: "uint (astype_uint8 r) = r mod 256"
    by (simp add: astype_uint8_def uint_word_of_int)
  have m: "r mod 256 = (if r < 0 then r + 256 else r)"
  proof (cases "r < 0")
    case True
    have "r mod 256 = (r + 256) mod 256" by simp
    also have "\<dots> = r + 256" by (rule mod_pos_pos_trivial) (use True assms in auto)
    finally show ?thesis using True by simp
  next
    case False
    then show ?thesis using assms by simp
  qed
  have "astype_uint8 r < 32 \<longleftrightarrow> uint (astype_uint8 r) < 32"
    by (simp add: word_less_def)
  then show "(astype_uint8 r \<ge> 0 \<and> astype_uint8 r < 32) \<longleftrightarrow> (0 \<le> r \<and> r < 32)"
    using u m assms by auto
  show "0 \<le> r \<Longrightarrow> uint (astype_uint8 r) = r" using u m by simp
qed

lemma rotation_write_fills:
  assumes "fills 3 32 32 F s0 D s"
    and "shape3 3 32 32 input_image"
    and "0 \<le> i" "i < 32" "0 \<le> j" "j < 32" "uint ni < 32" "uint nj < 32"
    and "0 \<le> channel" "channel < 3"
    and "F (nat channel) (nat (uint ni)) (nat (uint nj))
           = float_of_uint8 (px input_image (nat channel) (nat i) (nat j))"
  shows "\<exists>s'. rotation_write input_image i j ni nj channel s = Inr s' \<and>
           fills 3 32 32 F s0 (D \<union> {(nat channel, nat (uint ni), nat (uint nj))}) s'"
proof -
  have sh: "shape3 3 32 32 s" using assms(1) by (simp add: fills_def)
  have "nat (uint ni) < 32" "nat (uint nj) < 32" using assms(7,8) by linarith+
  then have n: "unat ni < 32" "unat nj < 32" by simp_all
  let ?v = "float_of_uint8 (px input_image (nat channel) (nat i) (nat j))"
  have "rotation_write input_image i j ni nj channel s
          = Inr (put3 s (nat channel) (nat (uint ni)) (nat (uint nj)) ?v)"
    using assms(3-10) n by (simp add: rotation_write_def get3_in[OF assms(2)] set3_in[OF sh])
  moreover have "fills 3 32 32 F s0 (D \<union> {(nat channel, nat (uint ni), nat (uint nj))})
      (put3 s (nat channel) (nat (uint ni)) (nat (uint nj))
         (F (nat channel) (nat (uint ni)) (nat (uint nj))))"
    by (rule fills_put3[OF assms(1)]) (use assms(3-10) n in auto)
  ultimately show ?thesis using assms(11) by simp
qed

lemma rotation_test:
  assumes "0 \<le> i" "i < 32" "0 \<le> j" "j < 32"
  shows "(astype_uint8 (rint (dst_row theta i j)) \<ge> 0 \<and>
          astype_uint8 (rint (dst_row theta i j)) < 32 \<and>
          astype_uint8 (rint (dst_col theta i j)) \<ge> 0 \<and>
          astype_uint8 (rint (dst_col theta i j)) < 32)
         \<longleftrightarrow> (0 \<le> rint (dst_row theta i j) \<and> rint (dst_row theta i j) < 32 \<and>
              0 \<le> rint (dst_col theta i j) \<and> rint (dst_col theta i j) < 32)"
  using uint8_test(1)[of "rint (dst_row theta i j)"] uint8_test(1)[of "rint (dst_col theta i j)"]
    dst_bounds[OF assms, of theta]
  by blast

lemma rotation_pixel_effect:
  assumes shi: "shape3 3 32 32 input_image" and sho: "shape3 3 32 32 output_image"
    and ij: "0 \<le> i" "i < 32" "0 \<le> j" "j < 32"
  shows "if 0 \<le> rint (dst_row theta i j) \<and> rint (dst_row theta i j) < 32 \<and>
            0 \<le> rint (dst_col theta i j) \<and> rint (dst_col theta i j) < 32
         then \<exists>out. rotation_pixel theta input_image i j output_image = Inr out \<and>
                shape3 3 32 32 out \<and>
                (\<forall>c<3. \<forall>r<32. \<forall>k<32.
                   px out c r k =
                     (if int r = rint (dst_row theta i j) \<and> int k = rint (dst_col theta i j)
                      then float_of_uint8 (px input_image c (nat i) (nat j))
                      else px output_image c r k))
         else rotation_pixel theta input_image i j output_image = Inr output_image"
proof (cases "0 \<le> rint (dst_row theta i j) \<and> rint (dst_row theta i j) < 32 \<and>
            0 \<le> rint (dst_col theta i j) \<and> rint (dst_col theta i j) < 32")
  case False
  with rotation_test[OF ij, of theta]
  have nt: "\<not> (astype_uint8 (rint (dst_row theta i j)) \<ge> 0 \<and>
          astype_uint8 (rint (dst_row theta i j)) < 32 \<and>
          astype_uint8 (rint (dst_col theta i j)) \<ge> 0 \<and>
          astype_uint8 (rint (dst_col theta i j)) < 32)"
    by blast
  have "rotation_pixel theta input_image i j output_image = Inr output_image"
    unfolding rotation_pixel_def Let_def by (rule if_not_P[OF nt])
  then show ?thesis unfolding if_not_P[OF False] .
next
  case True
  let ?ri = "rint (dst_row theta i j)" and ?rj = "rint (dst_col theta i j)"
  let ?ni = "astype_uint8 ?ri" and ?nj = "astype_uint8 ?rj"
  let ?F = "\<lambda>c (r::nat) (k::nat). float_of_uint8 (px input_image c (nat i) (nat j))"
  have u: "uint ?ni = ?ri" "uint ?nj = ?rj"
    using uint8_test(2)[of ?ri] uint8_test(2)[of ?rj] dst_bounds[OF ij, of theta] True by auto
  from rotation_test[OF ij, of theta] True
  have t: "?ni \<ge> 0 \<and> ?ni < 32 \<and> ?nj \<ge> 0 \<and> ?nj < 32"
    by blast
  have rp: "rotation_pixel theta input_image i j output_image
              = for_each (py_range 0 CHANNELS) (rotation_write input_image i j ?ni ?nj) output_image"
    unfolding rotation_pixel_def Let_def by (rule if_P[OF t])
  have "\<exists>out. for_each (py_range 0 CHANNELS) (rotation_write input_image i j ?ni ?nj) output_image
            = Inr out \<and>
          fills 3 32 32 ?F output_image
            ({} \<union> (\<Union>channel \<in> set (py_range 0 CHANNELS). {(nat channel, nat (uint ?ni), nat (uint ?nj))}))
            out"
    by (rule for_each_inv[where P = "fills 3 32 32 ?F output_image", OF fills_init[OF sho]])
       (rule rotation_write_fills, use shi ij u True in \<open>auto simp: set_py_range CHANNELS_def\<close>)
  then obtain out where out: "rotation_pixel theta input_image i j output_image = Inr out"
    and f: "fills 3 32 32 ?F output_image
              (\<Union>channel \<in> {0..<3}. {(nat channel, nat ?ri, nat ?rj)}) out"
    using rp u by (auto simp: set_py_range CHANNELS_def)
  have mem: "(c, r, k) \<in> (\<Union>channel \<in> {0..<3::int}. {(nat channel, nat ?ri, nat ?rj)})
      \<longleftrightarrow> int r = ?ri \<and> int k = ?rj" if "c < 3" for c r k
  proof
    assume "(c, r, k) \<in> (\<Union>channel \<in> {0..<3::int}. {(nat channel, nat ?ri, nat ?rj)})"
    then show "int r = ?ri \<and> int k = ?rj" using True by auto
  next
    assume a: "int r = ?ri \<and> int k = ?rj"
    from a have "nat ?ri = r" "nat ?rj = k" by linarith+
    then have "int c \<in> {0..<3}" "(c, r, k) = (nat (int c), nat ?ri, nat ?rj)"
      using that by auto
    then show "(c, r, k) \<in> (\<Union>channel \<in> {0..<3::int}. {(nat channel, nat ?ri, nat ?rj)})"
      by blast
  qed
  have "shape3 3 32 32 out \<and>
        (\<forall>c<3. \<forall>r<32. \<forall>k<32.
           px out c r k = (if int r = ?ri \<and> int k = ?rj
                           then float_of_uint8 (px input_image c (nat i) (nat j))
                           else px output_image c r k))"
    using f mem by (simp add: fills_def)
  with out show ?thesis unfolding if_P[OF True] by blast
qed

text \<open>
  C3: for every angle (in radians; \<open>random_rotation\<close> passes \<open>radians (- theta)\<close> for the
  drawn \<open>theta\<close>) and every source pixel \<open>(i, j)\<close> of a 3 x 32 x 32 image, the test of
  line 75, made on the coordinates converted to \<^verbatim>\<open>uint8\<close>, is true exactly when the
  rounded coordinates themselves lie in 0..31 on both axes. When they do, the step
  stores the source pixel of each channel at the rounded coordinates and changes nothing
  else; when they do not, the step leaves the output array as it is.
\<close>

theorem rotation_destination_test:
  assumes "shape3 3 32 32 input_image" "shape3 3 32 32 output_image"
    and "0 \<le> i" "i < 32" "0 \<le> j" "j < 32"
  shows "((astype_uint8 (rint (dst_row theta i j)) \<ge> 0 \<and>
           astype_uint8 (rint (dst_row theta i j)) < 32 \<and>
           astype_uint8 (rint (dst_col theta i j)) \<ge> 0 \<and>
           astype_uint8 (rint (dst_col theta i j)) < 32)
          \<longleftrightarrow> (0 \<le> rint (dst_row theta i j) \<and> rint (dst_row theta i j) < 32 \<and>
               0 \<le> rint (dst_col theta i j) \<and> rint (dst_col theta i j) < 32)) \<and>
         (if 0 \<le> rint (dst_row theta i j) \<and> rint (dst_row theta i j) < 32 \<and>
             0 \<le> rint (dst_col theta i j) \<and> rint (dst_col theta i j) < 32
          then \<exists>out. rotation_pixel theta input_image i j output_image = Inr out \<and>
                 shape3 3 32 32 out \<and>
                 (\<forall>c<3. \<forall>r<32. \<forall>k<32.
                    px out c r k =
                      (if int r = rint (dst_row theta i j) \<and> int k = rint (dst_col theta i j)
                       then float_of_uint8 (px input_image c (nat i) (nat j))
                       else px output_image c r k))
          else rotation_pixel theta input_image i j output_image = Inr output_image)"
  using rotation_test[OF assms(3-6), of theta] rotation_pixel_effect[OF assms, of theta]
  by (rule conjI)

lemma dst_zero: "dst_row 0 i j = of_int i" "dst_col 0 i j = of_int j"
  by (simp_all add: dst_row_def dst_col_def)

lemma sqrt2_bounds: "1.4 < sqrt 2" "sqrt 2 < 1.415"
proof -
  show "1.4 < sqrt 2" by (rule real_less_rsqrt) (simp add: power2_eq_square)
  show "sqrt 2 < 1.415" by (rule real_less_lsqrt) (simp_all add: power2_eq_square)
qed

lemma rint_between:
  assumes "of_int n - 1 / 2 < x" "x < of_int n + 1 / 2"
  shows "rint x = n"
proof (cases "of_int n \<le> x")
  case True
  then have "\<lfloor>x\<rfloor> = n" using assms(2) by (simp add: floor_eq_iff)
  then show ?thesis using assms(2) by (simp add: rint_def)
next
  case False
  then have f: "\<lfloor>x\<rfloor> = n - 1" using assms(1) by (simp add: floor_eq_iff)
  then show ?thesis using assms(1) False by (simp add: rint_def)
qed

lemma dropped_corner:
  "rint (dst_row (radians (of_int (- 45))) 0 0) = 16"
  "rint (dst_col (radians (of_int (- 45))) 0 0) = - 6"
proof -
  have t: "radians (of_int (- 45)) = - (pi / 4)" by (simp add: radians_def)
  have r: "dst_row (- (pi / 4)) 0 0 = 15.5"
    by (simp add: dst_row_def cos_45 sin_45)
  have c: "dst_col (- (pi / 4)) 0 0 = 15.5 - 15.5 * sqrt 2"
    by (simp add: dst_col_def cos_45 sin_45 algebra_simps)
  show "rint (dst_row (radians (of_int (- 45))) 0 0) = 16"
    unfolding t r by (simp add: rint_def)
  show "rint (dst_col (radians (of_int (- 45))) 0 0) = - 6"
    unfolding t c by (rule rint_between) (use sqrt2_bounds in simp_all)
qed

text \<open>
  The source pixel (0, 0) of the image of 100s, on the fresh output array: at the angle 0
  it is written to (0, 0); at the draw 45 its rounded coordinates are (16, -6) and it is
  dropped.
\<close>

theorem rotation_destination_test_witness:
  "(\<exists>out. rotation_pixel 0 grey_image 0 0 (zeros3 CHANNELS HEIGHT HEIGHT) = Inr out \<and>
          px out 0 0 0 = 100 \<and> px out 0 0 1 = 0) \<and>
   rotation_pixel (radians (of_int (- 45))) grey_image 0 0 (zeros3 CHANNELS HEIGHT HEIGHT)
     = Inr (zeros3 CHANNELS HEIGHT HEIGHT)"
proof -
  have z: "shape3 3 32 32 (zeros3 CHANNELS HEIGHT HEIGHT)"
    using zeros3_shape[of 3 32 32] by (simp add: CHANNELS_def HEIGHT_def)
  have b: "(0::int) \<le> 0" "(0::int) < 32" by simp_all
  have r0: "rint (dst_row 0 0 0) = 0" "rint (dst_col 0 0 0) = 0"
    by (simp_all add: dst_row_def dst_col_def rint_def)
  from rotation_destination_test[OF grey_shape z b b, of 0]
  obtain out where o: "rotation_pixel 0 grey_image 0 0 (zeros3 CHANNELS HEIGHT HEIGHT) = Inr out"
    and p: "\<forall>c<3. \<forall>r<32. \<forall>k<32.
              px out c r k =
                (if int r = 0 \<and> int k = 0 then float_of_uint8 (px grey_image c 0 0)
                 else px (zeros3 CHANNELS HEIGHT HEIGHT) c r k)"
    unfolding r0 by auto
  have "px out 0 0 0 = 100" "px out 0 0 1 = 0"
    using p by (simp_all add: px_grey float_of_uint8_def px_zeros3 CHANNELS_def HEIGHT_def)
  moreover
  from rotation_destination_test[OF grey_shape z b b, of "radians (of_int (- 45))"]
  have "rotation_pixel (radians (of_int (- 45))) grey_image 0 0 (zeros3 CHANNELS HEIGHT HEIGHT)
          = Inr (zeros3 CHANNELS HEIGHT HEIGHT)"
    unfolding dropped_corner by simp
  ultimately show ?thesis using o by blast
qed

lemma fills_pixel:
  assumes "fills 3 32 32 F s0 D s" "shape3 3 32 32 out"
    and "\<forall>c<3. \<forall>r<32. \<forall>k<32. px out c r k = (if r = a \<and> k = b then F c r k else px s c r k)"
  shows "fills 3 32 32 F s0 (D \<union> {(c, r, k). c < 3 \<and> r = a \<and> k = b}) out"
  using assms by (auto simp: fills_def)

lemma rotation_zero_pixel:
  assumes shi: "shape3 3 32 32 input_image"
    and f: "fills 3 32 32 (\<lambda>c r k. float_of_uint8 (px input_image c r k)) s0 D s"
    and ij: "0 \<le> i" "i < 32" "0 \<le> j" "j < 32"
  shows "\<exists>s'. rotation_pixel 0 input_image i j s = Inr s' \<and>
           fills 3 32 32 (\<lambda>c r k. float_of_uint8 (px input_image c r k)) s0
             (D \<union> {(c, r, k). c < 3 \<and> r = nat i \<and> k = nat j}) s'"
proof -
  have sh: "shape3 3 32 32 s" using f by (simp add: fills_def)
  from rotation_pixel_effect[OF shi sh ij, of 0] ij
  obtain out where o: "rotation_pixel 0 input_image i j s = Inr out" "shape3 3 32 32 out"
    and p: "\<forall>c<3. \<forall>r<32. \<forall>k<32.
              px out c r k =
                (if int r = i \<and> int k = j then float_of_uint8 (px input_image c (nat i) (nat j))
                 else px s c r k)"
    by (auto simp: dst_zero rint_of_int)
  have "\<forall>c<3. \<forall>r<32. \<forall>k<32.
          px out c r k =
            (if r = nat i \<and> k = nat j then float_of_uint8 (px input_image c r k) else px s c r k)"
    using p ij by auto
  from fills_pixel[OF f o(2) this] o(1) show ?thesis by blast
qed

text \<open>
  C7: with the angle draw 0, \<open>random_rotation\<close> returns the input image (its values as
  \<^verbatim>\<open>float64\<close>): every pixel of every channel is written, none is left at zero.
\<close>

theorem rotation_zero_identity:
  assumes "shape3 3 32 32 input_image"
  shows "random_rotation 0 input_image = Inr (to_float input_image)"
proof -
  let ?F = "\<lambda>c r k. float_of_uint8 (px input_image c r k)"
  let ?z = "zeros3 CHANNELS HEIGHT HEIGHT"
  have z: "fills 3 32 32 ?F ?z {} ?z"
    using zeros3_shape[of 3 32 32] by (auto intro: fills_init simp: CHANNELS_def HEIGHT_def)
  have row: "\<exists>s'. for_each (py_range 0 HEIGHT) (\<lambda>j. rotation_pixel 0 input_image i j) s = Inr s' \<and>
        fills 3 32 32 ?F ?z
          (D \<union> (\<Union>j \<in> set (py_range 0 HEIGHT). {(c, r, k). c < 3 \<and> r = nat i \<and> k = nat j})) s'"
    if "i \<in> set (py_range 0 HEIGHT)" "fills 3 32 32 ?F ?z D s" for i D s
    by (rule for_each_inv[where P = "fills 3 32 32 ?F ?z", OF that(2)])
       (rule rotation_zero_pixel[OF assms], use that(1) in \<open>auto simp: set_py_range HEIGHT_def\<close>)
  have "\<exists>out. for_each (py_range 0 HEIGHT)
          (\<lambda>i. for_each (py_range 0 HEIGHT) (\<lambda>j. rotation_pixel 0 input_image i j)) ?z = Inr out \<and>
        fills 3 32 32 ?F ?z
          ({} \<union> (\<Union>i \<in> set (py_range 0 HEIGHT). \<Union>j \<in> set (py_range 0 HEIGHT).
                   {(c, r, k). c < 3 \<and> r = nat i \<and> k = nat j})) out"
    by (rule for_each_inv[where P = "fills 3 32 32 ?F ?z", OF z]) (rule row)
  then obtain out where o: "random_rotation 0 input_image = Inr out"
    and f: "fills 3 32 32 ?F ?z
          (\<Union>i \<in> {0..<32}. \<Union>j \<in> {0..<32}. {(c, r, k). c < 3 \<and> r = nat i \<and> k = nat j}) out"
    by (auto simp: random_rotation_def radians_def set_py_range HEIGHT_def)
  have mem: "(c, r, k) \<in> (\<Union>i \<in> {0..<32::int}. \<Union>j \<in> {0..<32::int}.
                 {(c, r, k). c < (3::nat) \<and> r = nat i \<and> k = nat j})"
    if "c < 3" "r < 32" "k < 32" for c r k
  proof -
    have "int r \<in> {0..<32}" "int k \<in> {0..<32}" "r = nat (int r)" "k = nat (int k)"
      using that by auto
    with that(1) show ?thesis by blast
  qed
  have "out = to_float input_image"
  proof (rule array3_eqI)
    show "shape3 3 32 32 out" using f by (simp add: fills_def)
    show "shape3 3 32 32 (to_float input_image)"
      unfolding to_float_def by (rule shape3_map[OF assms])
  next
    fix c i j :: nat assume cij: "c < 3" "i < 32" "j < 32"
    have "px out c i j = float_of_uint8 (px input_image c i j)"
      using f mem[OF cij] cij by (simp add: fills_def)
    then show "px out c i j = px (to_float input_image) c i j"
      unfolding to_float_def by (simp add: px_map[OF assms cij])
  qed
  with o show ?thesis by simp
qed

theorem rotation_zero_identity_witness:
  "random_rotation 0 ramp_image = Inr (to_float ramp_image)"
  using rotation_zero_identity[OF ramp_shape] .

subsection \<open>Shape and value range\<close>

lemma rotation_range:
  assumes shi: "shape3 3 32 32 input_image"
  shows "\<exists>out. random_rotation theta input_image = Inr out \<and> shape3 3 32 32 out \<and>
           (\<forall>c<3. \<forall>i<32. \<forall>j<32. 0 \<le> px out c i j \<and> px out c i j \<le> 255)"
proof -
  let ?Q = "\<lambda>(D::unit set) s. shape3 3 32 32 s \<and>
              (\<forall>c<3. \<forall>i<32. \<forall>j<32. 0 \<le> px s c i j \<and> px s c i j \<le> (255::real))"
  let ?t = "radians (of_int (- theta))"
  let ?z = "zeros3 CHANNELS HEIGHT HEIGHT"
  have z: "?Q {} ?z"
    using zeros3_shape[of 3 32 32] by (simp add: CHANNELS_def HEIGHT_def px_zeros3)
  have pixel: "\<exists>s'. rotation_pixel ?t input_image i j s = Inr s' \<and> ?Q (D \<union> {}) s'"
    if "i \<in> set (py_range 0 HEIGHT)" "j \<in> set (py_range 0 HEIGHT)" "?Q D s"
    for i j and D :: "unit set" and s
  proof -
    have ij: "0 \<le> i" "i < 32" "0 \<le> j" "j < 32"
      using that(1,2) by (auto simp: set_py_range HEIGHT_def)
    have sh: "shape3 3 32 32 s" using that(3) by simp
    show ?thesis
    proof (cases "0 \<le> rint (dst_row ?t i j) \<and> rint (dst_row ?t i j) < 32 \<and>
            0 \<le> rint (dst_col ?t i j) \<and> rint (dst_col ?t i j) < 32")
      case True
      from rotation_pixel_effect[OF shi sh ij, of ?t] obtain out where
        o: "rotation_pixel ?t input_image i j s = Inr out" "shape3 3 32 32 out"
        and p: "\<forall>c<3. \<forall>r<32. \<forall>k<32.
                  px out c r k =
                    (if int r = rint (dst_row ?t i j) \<and> int k = rint (dst_col ?t i j)
                     then float_of_uint8 (px input_image c (nat i) (nat j))
                     else px s c r k)"
        unfolding if_P[OF True] by blast
      have "0 \<le> px out c r k \<and> px out c r k \<le> 255" if "c < 3" "r < 32" "k < 32" for c r k
        using p that \<open>?Q D s\<close> uint8_range[of "px input_image c (nat i) (nat j)"] by simp
      with o show ?thesis by simp
    next
      case False
      from rotation_pixel_effect[OF shi sh ij, of ?t]
      have "rotation_pixel ?t input_image i j s = Inr s"
        unfolding if_not_P[OF False] .
      with that(3) show ?thesis by simp
    qed
  qed
  have row: "\<exists>s'. for_each (py_range 0 HEIGHT) (\<lambda>j. rotation_pixel ?t input_image i j) s = Inr s' \<and>
               ?Q (D \<union> (\<Union>j \<in> set (py_range 0 HEIGHT). {})) s'"
    if "i \<in> set (py_range 0 HEIGHT)" "?Q D s" for i and D :: "unit set" and s
    by (rule for_each_inv[where P = ?Q, OF that(2)]) (rule pixel[OF that(1)])
  have "\<exists>out. for_each (py_range 0 HEIGHT)
          (\<lambda>i. for_each (py_range 0 HEIGHT) (\<lambda>j. rotation_pixel ?t input_image i j)) ?z = Inr out \<and>
        ?Q ({} \<union> (\<Union>i \<in> set (py_range 0 HEIGHT). \<Union>j \<in> set (py_range 0 HEIGHT). {})) out"
    by (rule for_each_inv[where P = ?Q, OF z]) (rule row)
  then show ?thesis by (auto simp: random_rotation_def)
qed

lemma cutout_range:
  assumes "shape3 3 32 32 input_image"
    and "cutout_contract width height value tlx tly brx bry"
  shows "\<exists>out. random_cutout width height value tlx tly brx bry input_image = Inr out \<and>
           shape3 3 32 32 out \<and>
           (\<forall>c<3. \<forall>i<32. \<forall>j<32. 0 \<le> uint (px out c i j) \<and> uint (px out c i j) \<le> 255)"
proof -
  from assms(2) have "length value = 3" "0 \<le> tlx" "brx \<le> 31" "0 \<le> tly" "bry \<le> 31"
    by (auto simp: cutout_contract_def)
  from cutout_loops[OF assms(1) this, of width height] obtain out where
    o: "random_cutout width height value tlx tly brx bry input_image = Inr out"
      "shape3 3 32 32 out"
    by (auto simp: fills_def)
  have "0 \<le> uint w \<and> uint w \<le> 255" for w :: uint8
    using uint_lt2p[of w] by simp
  with o show ?thesis by blast
qed

lemma crop_range:
  assumes "shape3 3 32 32 input_image" "0 \<le> tlx" "tlx \<le> 4" "0 \<le> tly" "tly \<le> 4"
  shows "\<exists>out. random_crop tlx tly input_image = Inr out \<and> shape3 3 32 32 out \<and>
           (\<forall>c<3. \<forall>i<32. \<forall>j<32. 0 \<le> px out c i j \<and> px out c i j \<le> 255)"
proof -
  from crop_result[OF assms] obtain out where
    o: "random_crop tlx tly input_image = Inr out" "shape3 3 32 32 out"
    and p: "\<forall>c<3. \<forall>i<32. \<forall>j<32.
             px out c i j =
               (if 2 \<le> nat tlx + i \<and> nat tlx + i < 34 \<and> 2 \<le> nat tly + j \<and> nat tly + j < 34
                then float_of_uint8 (px input_image c (nat tlx + i - 2) (nat tly + j - 2))
                else 0)"
    by blast
  have "0 \<le> px out c i j \<and> px out c i j \<le> 255" if "c < 3" "i < 32" "j < 32" for c i j
    using p that uint8_range[of "px input_image c (nat tlx + i - 2) (nat tly + j - 2)"] by simp
  with o show ?thesis by blast
qed

lemma contrast_flip_range:
  assumes sh: "shape3 3 32 32 input_image"
  shows "\<exists>out. contrast_and_horizontal_flipping alpha probability input_image = Inr out \<and>
           shape3 3 32 32 out \<and>
           (\<forall>c<3. \<forall>i<32. \<forall>j<32. 0 \<le> px out c i j \<and> px out c i j \<le> 255)"
proof (cases "probability > 0.5")
  case True
  from flip_result[OF sh True, of alpha] obtain out where
    o: "contrast_and_horizontal_flipping alpha probability input_image = Inr out"
      "shape3 3 32 32 out"
    and p: "\<forall>c<3. \<forall>i<32. \<forall>j<32. px out c i j = float_of_uint8 (px input_image c i (31 - j))"
    by blast
  have "0 \<le> px out c i j \<and> px out c i j \<le> 255" if "c < 3" "i < 32" "j < 32" for c i j
    using p that uint8_range[of "px input_image c i (31 - j)"] by simp
  with o show ?thesis by blast
next
  case False
  then have e: "contrast_and_horizontal_flipping alpha probability input_image
                  = contrast_stage alpha input_image"
    by (simp add: no_flip_result[OF sh])
  from contrast_stage_result[OF sh, of alpha] obtain out where
    o: "contrast_stage alpha input_image = Inr out" "shape3 3 32 32 out"
    and p: "\<forall>c<3. \<forall>i<32. \<forall>j<32.
              px out c i j =
                min (max (alpha * of_int (uint (px input_image c i j) - 128) + 128) 0) 255"
    by blast
  have "0 \<le> px out c i j \<and> px out c i j \<le> 255" if "c < 3" "i < 32" "j < 32" for c i j
    using p that by simp
  with o e show ?thesis by simp
qed

text \<open>
  C8: on a 3 x 32 x 32 image of \<^verbatim>\<open>uint8\<close> values, with draws within their ranges, each
  of the four transformations returns an array of shape 3 x 32 x 32 whose values all lie
  in 0..255.
\<close>

theorem transforms_shape_and_range:
  assumes "shape3 3 32 32 input_image" and "draws_contract d"
  shows "(\<exists>out. random_rotation (d_theta d) input_image = Inr out \<and> shape3 3 32 32 out \<and>
            (\<forall>c<3. \<forall>i<32. \<forall>j<32. 0 \<le> px out c i j \<and> px out c i j \<le> 255)) \<and>
         (\<exists>out. random_cutout (d_width d) (d_height d) (d_value d) (d_tlx d) (d_tly d)
                  (d_brx d) (d_bry d) input_image = Inr out \<and> shape3 3 32 32 out \<and>
            (\<forall>c<3. \<forall>i<32. \<forall>j<32. 0 \<le> uint (px out c i j) \<and> uint (px out c i j) \<le> 255)) \<and>
         (\<exists>out. random_crop (d_crop_tlx d) (d_crop_tly d) input_image = Inr out \<and>
            shape3 3 32 32 out \<and>
            (\<forall>c<3. \<forall>i<32. \<forall>j<32. 0 \<le> px out c i j \<and> px out c i j \<le> 255)) \<and>
         (\<exists>out. contrast_and_horizontal_flipping (d_alpha d) (d_probability d) input_image
                  = Inr out \<and> shape3 3 32 32 out \<and>
            (\<forall>c<3. \<forall>i<32. \<forall>j<32. 0 \<le> px out c i j \<and> px out c i j \<le> 255))"
proof (intro conjI)
  show "\<exists>out. random_rotation (d_theta d) input_image = Inr out \<and> shape3 3 32 32 out \<and>
            (\<forall>c<3. \<forall>i<32. \<forall>j<32. 0 \<le> px out c i j \<and> px out c i j \<le> 255)"
    by (rule rotation_range[OF assms(1)])
  show "\<exists>out. random_cutout (d_width d) (d_height d) (d_value d) (d_tlx d) (d_tly d)
                  (d_brx d) (d_bry d) input_image = Inr out \<and> shape3 3 32 32 out \<and>
            (\<forall>c<3. \<forall>i<32. \<forall>j<32. 0 \<le> uint (px out c i j) \<and> uint (px out c i j) \<le> 255)"
    by (rule cutout_range[OF assms(1)]) (use assms(2) in \<open>simp add: draws_contract_def\<close>)
  show "\<exists>out. random_crop (d_crop_tlx d) (d_crop_tly d) input_image = Inr out \<and>
            shape3 3 32 32 out \<and>
            (\<forall>c<3. \<forall>i<32. \<forall>j<32. 0 \<le> px out c i j \<and> px out c i j \<le> 255)"
    by (rule crop_range[OF assms(1)]) (use assms(2) in \<open>simp_all add: draws_contract_def\<close>)
  show "\<exists>out. contrast_and_horizontal_flipping (d_alpha d) (d_probability d) input_image
                  = Inr out \<and> shape3 3 32 32 out \<and>
            (\<forall>c<3. \<forall>i<32. \<forall>j<32. 0 \<le> px out c i j \<and> px out c i j \<le> 255)"
    by (rule contrast_flip_range[OF assms(1)])
qed

lemma example_draws_ok: "draws_contract example_draws"
  by (simp add: draws_contract_def example_draws_def cutout_contract_def)

text \<open>
  The image of 100s and the example draws.
\<close>

theorem transforms_shape_and_range_witness:
  "(\<exists>out. random_rotation 0 grey_image = Inr out \<and> shape3 3 32 32 out) \<and>
   (\<exists>out. random_cutout 5 5 [10, 20, 30] 0 0 4 4 grey_image = Inr out \<and> shape3 3 32 32 out) \<and>
   (\<exists>out. random_crop 2 2 grey_image = Inr out \<and> shape3 3 32 32 out) \<and>
   (\<exists>out. contrast_and_horizontal_flipping 1 0.9 grey_image = Inr out \<and> shape3 3 32 32 out)"
  using transforms_shape_and_range[OF grey_shape example_draws_ok]
  by (simp add: example_draws_def) blast

subsection \<open>The augmentation loop\<close>

lemma augment_image_total:
  assumes "shape3 3 32 32 og_image" "draws_contract d"
  shows "\<exists>img. augment_image operation d og_image = Inr img \<and> image_shape_ok img"
proof -
  from rotation_range[OF assms(1), of "d_theta d"] obtain o1 where
    o1: "random_rotation (d_theta d) og_image = Inr o1" "shape3 3 32 32 o1" by blast
  have "cutout_contract (d_width d) (d_height d) (d_value d) (d_tlx d) (d_tly d) (d_brx d) (d_bry d)"
    using assms(2) by (simp add: draws_contract_def)
  from cutout_range[OF assms(1) this] obtain o2 where
    o2: "random_cutout (d_width d) (d_height d) (d_value d) (d_tlx d) (d_tly d) (d_brx d)
           (d_bry d) og_image = Inr o2" "shape3 3 32 32 o2" by blast
  have "0 \<le> d_crop_tlx d" "d_crop_tlx d \<le> 4" "0 \<le> d_crop_tly d" "d_crop_tly d \<le> 4"
    using assms(2) by (simp_all add: draws_contract_def)
  from crop_range[OF assms(1) this] obtain o3 where
    o3: "random_crop (d_crop_tlx d) (d_crop_tly d) og_image = Inr o3" "shape3 3 32 32 o3" by blast
  from contrast_flip_range[OF assms(1), of "d_alpha d" "d_probability d"] obtain o4 where
    o4: "contrast_and_horizontal_flipping (d_alpha d) (d_probability d) og_image = Inr o4"
      "shape3 3 32 32 o4" by blast
  show ?thesis
    using o1 o2 o3 o4 by (simp add: augment_image_def image_shape_ok_def)
qed

lemma py_range_nat: "py_range 0 (int n) = map int [0..<n]"
proof (induction n)
  case 0
  then show ?case by (simp add: py_range_def)
next
  case (Suc n)
  have "[0..int (Suc n) - 1] = [0..int n - 1] @ [int n]"
    using upto_rec2[of 0 "int n"] by simp
  with Suc show ?case by (simp add: py_range_def)
qed

text \<open>
  C9: for \<open>n\<close> images of shape 3 x 32 x 32, \<open>n\<close> operation indices in 0..3 and draws
  within their ranges, the loop of \<^verbatim>\<open>main\<close> returns the label list unchanged and
  exactly \<open>n\<close> images; the image at position \<open>i\<close> is the result of the transformation
  chosen by the \<open>i\<close>-th index on the \<open>i\<close>-th input; the indices 0, 1, 2, 3 choose
  rotation, cutout, crop and contrast with flip.
\<close>

theorem dispatcher_order_and_labels:
  assumes "int (length images) = n"
    and "length operations = length images"
    and "\<forall>operation \<in> set operations. 0 \<le> operation \<and> operation < 4"
    and "\<forall>og_image \<in> set images. shape3 3 32 32 og_image"
    and "\<forall>i. draws_contract (rng i)"
  shows "\<exists>outs. augmented_dataset n operations rng labels images = Inr (labels, outs) \<and>
           length outs = length images \<and>
           (\<forall>i<length images.
              \<exists>img. augment_image (operations ! i) (rng (int i)) (images ! i) = Inr img \<and>
                    outs ! i = image_values img) \<and>
           (\<forall>d og_image.
              augment_image 0 d og_image
                = map_sum id Float64Image (random_rotation (d_theta d) og_image) \<and>
              augment_image 1 d og_image
                = map_sum id UInt8Image
                    (random_cutout (d_width d) (d_height d) (d_value d) (d_tlx d) (d_tly d)
                       (d_brx d) (d_bry d) og_image) \<and>
              augment_image 2 d og_image
                = map_sum id Float64Image (random_crop (d_crop_tlx d) (d_crop_tly d) og_image) \<and>
              augment_image 3 d og_image
                = map_sum id Float64Image
                    (contrast_and_horizontal_flipping (d_alpha d) (d_probability d) og_image))"
proof -
  let ?h = "\<lambda>i. augment_image (operations ! nat i) (rng i) (images ! nat i)"
  have tot: "\<exists>img. ?h (int i) = Inr img \<and> image_shape_ok img" if "i < length images" for i
    by (rule augment_image_total) (use that assms(4,5) in auto)
  then obtain g where g: "\<And>i. i < length images \<Longrightarrow> ?h (int i) = Inr (g i) \<and> image_shape_ok (g i)"
    by metis
  have step: "augment_step operations rng images (int i) acc
                = (case ?h (int i) of Inl e \<Rightarrow> Inl e | Inr y \<Rightarrow> Inr (acc @ [y]))"
    if "i < length images" for i acc
    using that assms(2) by (simp add: augment_step_def getitem_in)
  have loop: "for_each (map int is) (augment_step operations rng images) acc
                = Inr (acc @ map g is)" if "\<forall>i \<in> set is. i < length images" for "is" acc
    using that
  proof (induction "is" arbitrary: acc)
    case Nil
    then show ?case by simp
  next
    case (Cons i "is")
    then show ?case using step[of i acc] g[of i] by simp
  qed
  have lp: "for_each (py_range 0 n) (augment_step operations rng images) []
              = Inr (map g [0..<length images])"
    using loop[of "[0..<length images]" "[]"] assms(1) by (simp add: py_range_nat[symmetric])
  have ok: "list_all image_shape_ok (map g [0..<length images])"
    using g by (simp add: list_all_iff)
  let ?outs = "map image_values (map g [0..<length images])"
  have res: "augmented_dataset n operations rng labels images = Inr (labels, ?outs)"
    using lp ok assms(1) by (simp add: augmented_dataset_def stack_images_def)
  have nth: "\<exists>img. augment_image (operations ! i) (rng (int i)) (images ! i) = Inr img \<and>
                  ?outs ! i = image_values img" if "i < length images" for i
    using g[OF that] that by simp
  have "augment_image 0 d og_image
          = map_sum id Float64Image (random_rotation (d_theta d) og_image) \<and>
        augment_image 1 d og_image
          = map_sum id UInt8Image
              (random_cutout (d_width d) (d_height d) (d_value d) (d_tlx d) (d_tly d)
                 (d_brx d) (d_bry d) og_image) \<and>
        augment_image 2 d og_image
          = map_sum id Float64Image (random_crop (d_crop_tlx d) (d_crop_tly d) og_image) \<and>
        augment_image 3 d og_image
          = map_sum id Float64Image
              (contrast_and_horizontal_flipping (d_alpha d) (d_probability d) og_image)"
    for d og_image
    by (simp add: augment_image_def)
  with res nth show ?thesis by (intro exI[of _ ?outs]) simp
qed

text \<open>
  Two images, the operations cutout and crop, the labels 3 and 7.
\<close>

theorem dispatcher_order_and_labels_witness:
  "\<exists>outs. augmented_dataset 2 [1, 2] (\<lambda>i. example_draws) [3, 7] [grey_image, ramp_image]
            = Inr ([3, 7], outs) \<and> length outs = 2"
proof -
  have "\<forall>og_image \<in> set [grey_image, ramp_image]. shape3 3 32 32 og_image"
    using grey_shape ramp_shape by simp
  moreover have "\<forall>i::int. draws_contract ((\<lambda>i. example_draws) i)"
    using example_draws_ok by simp
  moreover have "\<forall>operation \<in> set [1, 2::int]. 0 \<le> operation \<and> operation < 4" by simp
  ultimately show ?thesis
    using dispatcher_order_and_labels[of "[grey_image, ramp_image]" 2 "[1, 2]"
        "\<lambda>i. example_draws" "[3, 7]"]
    by auto
qed

subsection \<open>Errors\<close>

lemma getitem_error: "getitem xs i = Inl e \<Longrightarrow> e = IndexError"
  by (simp add: getitem_def Let_def split: if_splits)

lemma setitem_error: "setitem xs i v = Inl e \<Longrightarrow> e = IndexError"
  by (simp add: setitem_def Let_def split: if_splits)

lemma get3_error: "get3 a c i j = Inl e \<Longrightarrow> e = IndexError"
  by (auto simp: get3_def split: sum.splits dest: getitem_error)

lemma set3_error: "set3 a c i j v = Inl e \<Longrightarrow> e = IndexError"
  by (auto simp: set3_def split: sum.splits dest: getitem_error setitem_error)

lemma for_each_error:
  assumes "for_each xs body s = Inl e"
    and "\<And>x s. x \<in> set xs \<Longrightarrow> body x s = Inl e \<Longrightarrow> P"
  shows P
  using assms
proof (induction xs arbitrary: s)
  case Nil
  then show ?case by simp
next
  case (Cons x xs)
  show ?case
  proof (cases "body x s")
    case (Inl e')
    with Cons.prems(1) have "body x s = Inl e" by simp
    then show ?thesis by (rule Cons.prems(2)[rotated]) simp
  next
    case (Inr s')
    with Cons.prems(1) have "for_each xs body s' = Inl e" by simp
    then show ?thesis by (rule Cons.IH) (rule Cons.prems(2), auto)
  qed
qed

lemma assign_plane_error: "assign_plane a c p = Inl e \<Longrightarrow> e = IndexError \<or> e = ValueError"
  by (auto simp: assign_plane_def Let_def split: sum.splits if_splits
      dest: getitem_error setitem_error)

lemma rotation_error:
  assumes "random_rotation theta input_image = Inl e"
  shows "e = IndexError"
proof -
  have w: "e = IndexError" if "rotation_write input_image i j ni nj channel s = Inl e"
    for i j ni nj channel s
    using that by (auto simp: rotation_write_def split: sum.splits dest: get3_error set3_error)
  have p: "e = IndexError" if "rotation_pixel t input_image i j s = Inl e" for t i j s
  proof (cases "astype_uint8 (rint (dst_row t i j)) \<ge> 0 \<and>
                astype_uint8 (rint (dst_row t i j)) < 32 \<and>
                astype_uint8 (rint (dst_col t i j)) \<ge> 0 \<and>
                astype_uint8 (rint (dst_col t i j)) < 32")
    case True
    from that[unfolded rotation_pixel_def Let_def if_P[OF True]]
    show ?thesis by (rule for_each_error) (rule w)
  next
    case False
    from that[unfolded rotation_pixel_def Let_def if_not_P[OF False]]
    show ?thesis by simp
  qed
  from assms show ?thesis
    unfolding random_rotation_def Let_def
    by (elim for_each_error) (rule p)
qed

lemma cutout_error:
  assumes "random_cutout width height value tlx tly brx bry input_image = Inl e"
  shows "e = IndexError"
proof -
  have w: "e = IndexError" if "cutout_write value channel i j s = Inl e" for channel i j s
    using that by (auto simp: cutout_write_def split: sum.splits dest: getitem_error set3_error)
  from assms show ?thesis
    unfolding random_cutout_def Let_def
    by (elim for_each_error) (rule w)
qed

lemma crop_error:
  assumes "random_crop tlx tly input_image = Inl e"
  shows "e = IndexError \<or> e = ValueError"
proof -
  have pad: "e = IndexError \<or> e = ValueError" if "crop_pad input_image channel s = Inl e"
    for channel s
    using that
    by (auto simp: crop_pad_def split: sum.splits dest: getitem_error assign_plane_error)
  have win: "e = IndexError \<or> e = ValueError"
    if "crop_window p r0 r1 c0 c1 channel s = Inl e" for p r0 r1 c0 c1 channel s
    using that
    by (auto simp: crop_window_def split: sum.splits dest: getitem_error assign_plane_error)
  from assms consider
    "for_each (py_range 0 CHANNELS) (crop_pad input_image)
       (zeros3 CHANNELS (HEIGHT + 4) (HEIGHT + 4)) = Inl e"
    | p where "for_each (py_range 0 CHANNELS)
       (crop_window p tlx (tlx + HEIGHT) tly (tly + HEIGHT)) (zeros3 CHANNELS HEIGHT HEIGHT) = Inl e"
    by (auto simp: random_crop_def Let_def split: sum.splits)
  then show ?thesis
  proof cases
    case 1
    then show ?thesis by (rule for_each_error) (rule pad)
  next
    case 2
    then show ?thesis by (rule for_each_error) (rule win)
  qed
qed

lemma contrast_flip_error:
  assumes "contrast_and_horizontal_flipping alpha probability input_image = Inl e"
  shows "e = IndexError"
proof -
  have cw: "e = IndexError" if "contrast_write alpha input_image channel i j s = Inl e"
    for channel i j s
    using that by (auto simp: contrast_write_def split: sum.splits dest: get3_error set3_error)
  have fw: "e = IndexError" if "flip_swap input_image channel i j s = Inl e" for channel i j s
    using that by (auto simp: flip_swap_def split: sum.splits dest: get3_error set3_error)
  from assms consider
    "contrast_loop alpha input_image (zeros3 CHANNELS HEIGHT HEIGHT) = Inl e"
    | out where "flip_stage input_image out = Inl e"
    by (auto simp: contrast_and_horizontal_flipping_def contrast_stage_def Let_def
        split: sum.splits if_splits)
  then show ?thesis
  proof cases
    case 1
    then show ?thesis unfolding contrast_loop_def by (elim for_each_error) (rule cw)
  next
    case 2
    then show ?thesis unfolding flip_stage_def by (elim for_each_error) (rule fw)
  qed
qed

lemma cutout_write_any_shape:
  assumes "fills C H W (\<lambda>c i j. astype_uint8 (value ! c)) s0 D s"
    and "length value = 3" "3 \<le> C" "0 \<le> channel" "channel < 3"
    and "0 \<le> i" "i < int H" "0 \<le> j" "j < int W"
  shows "\<exists>s'. cutout_write value channel i j s = Inr s' \<and>
           fills C H W (\<lambda>c i j. astype_uint8 (value ! c)) s0
             (D \<union> {(nat channel, nat i, nat j)}) s'"
proof -
  have sh: "shape3 C H W s" using assms(1) by (simp add: fills_def)
  have c: "channel < int C" using assms(3,5) by simp
  have "cutout_write value channel i j s
          = Inr (put3 s (nat channel) (nat i) (nat j) (astype_uint8 (value ! nat channel)))"
    using assms(2,4-) c by (simp add: cutout_write_def getitem_in set3_in[OF sh])
  moreover have "fills C H W (\<lambda>c i j. astype_uint8 (value ! c)) s0
      (D \<union> {(nat channel, nat i, nat j)})
      (put3 s (nat channel) (nat i) (nat j) (astype_uint8 (value ! nat channel)))"
    by (rule fills_put3[OF assms(1)]) (use assms(3-) in auto)
  ultimately show ?thesis by simp
qed

lemma cutout_any_shape:
  assumes sh: "shape3 C H W input_image" and c: "3 \<le> C"
    and len: "length value = 3"
    and b: "0 \<le> tlx" "brx < int H" "0 \<le> tly" "bry < int W"
  shows "\<exists>out. random_cutout width height value tlx tly brx bry input_image = Inr out \<and>
           shape3 C H W out"
proof -
  let ?P = "fills C H W (\<lambda>c (i::nat) (j::nat). astype_uint8 (value ! c)) input_image"
  have "\<exists>out. for_each (py_range 0 CHANNELS)
          (\<lambda>channel. for_each (py_range tlx (brx + 1))
             (\<lambda>i. for_each (py_range tly (bry + 1)) (cutout_write value channel i))) input_image
          = Inr out \<and>
        ?P ({} \<union> (\<Union>channel \<in> set (py_range 0 CHANNELS). \<Union>i \<in> set (py_range tlx (brx + 1)).
               \<Union>j \<in> set (py_range tly (bry + 1)). {(nat channel, nat i, nat j)})) out"
    by (rule triple_loop[where P = ?P, OF fills_init[OF sh]])
       (rule cutout_write_any_shape, use len c b in \<open>auto simp: set_py_range CHANNELS_def\<close>)
  then show ?thesis by (auto simp: random_cutout_def fills_def)
qed

text \<open>
  C2, as amended, for the three-dimensional \<^verbatim>\<open>uint8\<close> arrays of the embedding: no
  transformation checks the shape of its input, and none fails with \<open>ShapeMismatch\<close>.
  On an array of any shape \<open>C \<times> H \<times> W\<close> and any draws a transformation either returns
  an array or fails with the \<^verbatim>\<open>IndexError\<close> of the access that is out of range
  (\<open>random_crop\<close> also with the \<^verbatim>\<open>ValueError\<close> of a plane assignment that does not
  broadcast). An image of another shape is processed in silence when the indices used
  exist in it: with at least three channels and the rectangle inside its \<open>H\<close> rows and
  \<open>W\<close> columns, \<open>random_cutout\<close> returns an array of the input's own shape.
\<close>

theorem no_shape_check:
  "(case random_rotation theta input_image of Inl e \<Rightarrow> e = IndexError | Inr out \<Rightarrow> True) \<and>
   (case random_cutout width height value tlx tly brx bry input_image of
      Inl e \<Rightarrow> e = IndexError | Inr out \<Rightarrow> True) \<and>
   (case random_crop ctlx ctly input_image of
      Inl e \<Rightarrow> e = IndexError \<or> e = ValueError | Inr out \<Rightarrow> True) \<and>
   (case contrast_and_horizontal_flipping alpha probability input_image of
      Inl e \<Rightarrow> e = IndexError | Inr out \<Rightarrow> True) \<and>
   (shape3 C H W input_image \<and> 3 \<le> C \<and> length value = 3 \<and>
    0 \<le> tlx \<and> brx < int H \<and> 0 \<le> tly \<and> bry < int W \<longrightarrow>
      (\<exists>out. random_cutout width height value tlx tly brx bry input_image = Inr out \<and>
             shape3 C H W out))"
proof (intro conjI impI)
  assume "shape3 C H W input_image \<and> 3 \<le> C \<and> length value = 3 \<and>
    0 \<le> tlx \<and> brx < int H \<and> 0 \<le> tly \<and> bry < int W"
  then show "\<exists>out. random_cutout width height value tlx tly brx bry input_image = Inr out \<and>
             shape3 C H W out"
    using cutout_any_shape by blast
qed (auto split: sum.splits dest: rotation_error cutout_error crop_error contrast_flip_error)

text \<open>
  An image of shape 4 x 40 x 40 and the rectangle from (0, 0) to (4, 4).
\<close>

theorem no_shape_check_witness:
  "\<not> shape3 3 32 32 wide_image \<and>
   (\<exists>out. random_cutout 5 5 [10, 20, 30] 0 0 4 4 wide_image = Inr out \<and> shape3 4 40 40 out)"
proof -
  have sh: "shape3 4 40 40 wide_image"
    by (simp add: shape3_def shape2_def wide_image_def)
  have n: "\<not> shape3 3 32 32 wide_image"
    by (simp add: shape3_def wide_image_def)
  have "shape3 4 40 40 wide_image \<and> (3::nat) \<le> 4 \<and> length [10, 20, 30::int] = 3 \<and>
      (0::int) \<le> 0 \<and> (4::int) < int 40 \<and> (0::int) \<le> 0 \<and> (4::int) < int 40 \<longrightarrow>
    (\<exists>out. random_cutout 5 5 [10, 20, 30] 0 0 4 4 wide_image = Inr out \<and> shape3 4 40 40 out)"
    by (rule no_shape_check[THEN conjunct2, THEN conjunct2, THEN conjunct2, THEN conjunct2])
  with sh
  have "\<exists>out. random_cutout 5 5 [10, 20, 30] 0 0 4 4 wide_image = Inr out \<and> shape3 4 40 40 out"
    by simp
  with n show ?thesis by blast
qed

lemma small_ranges:
  "py_range 0 CHANNELS = [0, 1, 2]" "py_range 0 1 = [0]" "py_range 0 2 = [0, 1]"
  by (simp_all add: py_range_def CHANNELS_def upto_rec1)

text \<open>
  C2, as stated, fails: on an image of shape 3 x 1 x 1 \<open>random_cutout\<close> with the rectangle
  from (0, 0) to (0, 0) returns the filled image, and with the rectangle from (0, 0) to
  (1, 1) it fails with \<open>IndexError\<close> at the access, not with \<open>ShapeMismatch\<close>.
\<close>

theorem wrong_shape_processed:
  "\<not> shape3 3 32 32 tiny_image \<and>
   cutout_contract 0 0 [9, 9, 9] 0 0 0 0 \<and>
   random_cutout 0 0 [9, 9, 9] 0 0 0 0 tiny_image = Inr [[[9]], [[9]], [[9]]] \<and>
   random_cutout 0 0 [9, 9, 9] 0 0 1 1 tiny_image = Inl IndexError"
  by (simp add: shape3_def shape2_def tiny_image_def cutout_contract_def random_cutout_def
      small_ranges cutout_write_def getitem_def setitem_def set3_def astype_uint8_def)

end
